theory Spec2Isabelle
  imports Complex_Main
begin

section \<open>JavaScript values\<close>

text \<open>
  The tween reads and writes properties of untyped objects. A property value is a number,
  \<^verbatim>\<open>NaN\<close>, \<^verbatim>\<open>null\<close>, \<^verbatim>\<open>undefined\<close> or an array. Numbers are
  real numbers: the rounding, the infinities and the negative zero of IEEE doubles are
  not part of the model. \<open>Opaque\<close> stands for a value that the model does not
  determine: the string that \<^verbatim>\<open>+\<close> builds from an array operand, and the number
  that an array converts to.
\<close>

datatype jsval = Num real | NaN | Null | Undefined | Arr "jsval list" | Opaque

text \<open>
  An object is the list of its properties in insertion order, which is the order of
  \<^verbatim>\<open>for (var property in o)\<close>; property names occur once.
\<close>

type_synonym jsobj = "(string \<times> jsval) list"

definition js_in :: "string \<Rightarrow> jsobj \<Rightarrow> bool" where
  "js_in k ob = (map_of ob k \<noteq> None)"

definition js_get :: "jsobj \<Rightarrow> string \<Rightarrow> jsval" where
  "js_get ob k = (case map_of ob k of None \<Rightarrow> Undefined | Some v \<Rightarrow> v)"

fun js_set :: "string \<Rightarrow> jsval \<Rightarrow> jsobj \<Rightarrow> jsobj" where
  "js_set k v [] = [(k, v)]"
| "js_set k v ((k', v') # ob) = (if k' = k then (k, v) # ob else (k', v') # js_set k v ob)"

fun to_number :: "jsval \<Rightarrow> jsval" where
  "to_number (Num r) = Num r"
| "to_number NaN = NaN"
| "to_number Null = Num 0"
| "to_number Undefined = NaN"
| "to_number (Arr xs) = Opaque"
| "to_number Opaque = Opaque"

fun num_op :: "(real \<Rightarrow> real \<Rightarrow> real) \<Rightarrow> jsval \<Rightarrow> jsval \<Rightarrow> jsval" where
  "num_op f (Num a) (Num b) = Num (f a b)"
| "num_op f NaN b = NaN"
| "num_op f a NaN = NaN"
| "num_op f a b = Opaque"

definition js_sub :: "jsval \<Rightarrow> jsval \<Rightarrow> jsval" where
  "js_sub a b = num_op (\<lambda>x y. x - y) (to_number a) (to_number b)"

definition js_mul :: "jsval \<Rightarrow> jsval \<Rightarrow> jsval" where
  "js_mul a b = num_op (\<lambda>x y. x * y) (to_number a) (to_number b)"

fun stringy :: "jsval \<Rightarrow> bool" where
  "stringy (Arr xs) = True"
| "stringy Opaque = True"
| "stringy v = False"

definition js_add :: "jsval \<Rightarrow> jsval \<Rightarrow> jsval" where
  "js_add a b = (if stringy a \<or> stringy b then Opaque
                 else num_op (\<lambda>x y. x + y) (to_number a) (to_number b))"

section \<open>Tweens, targets and the game\<close>

text \<open>
  The model follows \<^verbatim>\<open>tweens/Tween.ts\<close>. All tweens belong to one game; a tween's
  \<^verbatim>\<open>game\<close> field is that game or \<^verbatim>\<open>null\<close>. A call returns a value or throws, and
  the state at the throw is kept. The fields of a tween are the fields of the class, the
  private ones without their underscore; \<^verbatim>\<open>_valuesEnd\<close> is the tween's own copy of
  the object passed to \<^verbatim>\<open>to\<close>.
\<close>

datatype game_ref = Game

datatype error = InterpolationError | TypeError

datatype 'a outcome = Return 'a | Throw error

datatype event =
    OnStart nat "nat option"
  | OnUpdate nat "nat option" jsval
  | OnComplete nat "nat option"

record tween =
  game :: "game_ref option"
  object :: "nat option"
  valuesStart :: jsobj
  valuesEnd :: jsobj
  duration :: real
  delayTime :: real
  startTime :: "real option"
  tempElapsed :: jsval
  tempValue :: jsval
  loop :: bool
  yoyo :: bool
  yoyoCount :: nat
  easingFunction :: "jsval \<Rightarrow> jsval"
  interpolationFunction :: "jsval \<Rightarrow> jsval \<Rightarrow> jsval"
  chainedTweens :: "nat list"
  isRunning :: bool
  paused :: bool

text \<open>
  Tweens and target objects live in a store and are named by their addresses, so that a
  tween chained to itself and two tweens on one target are what they are in the program.
  The game's clock is \<open>time_now\<close>. Modelled from the spec: the \<^verbatim>\<open>TweenManager\<close>
  and \<^verbatim>\<open>Signal\<close> classes are not part of the source; \<open>manager\<close> is the list of
  the tweens added to the manager, and \<open>signals\<close> is the list of the notifications
  dispatched so far. Listeners are not modelled.
\<close>

record world =
  tweens :: "nat \<Rightarrow> tween"
  objects :: "nat \<Rightarrow> jsobj"
  time_now :: real
  manager :: "nat list"
  signals :: "event list"

definition upd_tween :: "nat \<Rightarrow> (tween \<Rightarrow> tween) \<Rightarrow> world \<Rightarrow> world" where
  "upd_tween tid f w = w\<lparr>tweens := (tweens w)(tid := f (tweens w tid))\<rparr>"

definition dispatch :: "event \<Rightarrow> world \<Rightarrow> world" where
  "dispatch ev w = w\<lparr>signals := signals w @ [ev]\<rparr>"

text \<open>
  The constructor. The default easing and interpolation functions come from the game's
  libraries, which are not part of the source, and are parameters here.
\<close>

definition new_tween ::
  "nat option \<Rightarrow> (jsval \<Rightarrow> jsval) \<Rightarrow> (jsval \<Rightarrow> jsval \<Rightarrow> jsval) \<Rightarrow> tween" where
  "new_tween ob ease interp =
     \<lparr>game = Some Game, object = ob, valuesStart = [], valuesEnd = [],
      duration = 1000, delayTime = 0, startTime = None,
      tempElapsed = Undefined, tempValue = Undefined,
      loop = False, yoyo = False, yoyoCount = 0,
      easingFunction = ease, interpolationFunction = interp,
      chainedTweens = [], isRunning = False, paused = False\<rparr>"

section \<open>start\<close>

text \<open>
  \<^verbatim>\<open>start\<close>, lines 185 to 232. The loop of \<^verbatim>\<open>start\<close> over the keys of \<^verbatim>\<open>_valuesEnd\<close>: it reads the target
  \<open>ob\<close> and writes the tween. The result is the error thrown, if any, and the tween at
  that moment: what the loop had written before the \<^verbatim>\<open>throw\<close> stays written.
\<close>

definition capture :: "bool \<Rightarrow> string \<Rightarrow> jsval \<Rightarrow> tween \<Rightarrow> tween" where
  "capture looped p cur t =
     (if \<not> looped then t\<lparr>valuesStart := js_set p cur (valuesStart t)\<rparr> else t)"

text \<open>The test that guards each key: the target's value is \<^verbatim>\<open>null\<close> or the key is missing.\<close>

definition bad_key :: "jsobj \<Rightarrow> string \<Rightarrow> bool" where
  "bad_key ob p = (js_get ob p = Null \<or> \<not> js_in p ob)"

text \<open>The body of the loop for a key that passed the test.\<close>

definition start_prop :: "bool \<Rightarrow> jsobj \<Rightarrow> string \<Rightarrow> tween \<Rightarrow> tween" where
  "start_prop looped ob p t =
     (case js_get (valuesEnd t) p of
        Arr ks \<Rightarrow>
          if ks = [] then t
          else capture looped p (js_get ob p)
                 (t\<lparr>valuesEnd := js_set p (Arr (js_get ob p # ks)) (valuesEnd t)\<rparr>)
      | e \<Rightarrow> capture looped p (js_get ob p) t)"

fun start_props :: "bool \<Rightarrow> jsobj \<Rightarrow> string list \<Rightarrow> tween \<Rightarrow> error option \<times> tween" where
  "start_props looped ob [] t = (None, t)"
| "start_props looped ob (p # ps) t =
     (if bad_key ob p then (Some InterpolationError, t)
      else start_props looped ob ps (start_prop looped ob p t))"

text \<open>\<open>Return None\<close> is the \<^verbatim>\<open>return;\<close> of the first lines, \<open>Return (Some tid)\<close> is \<^verbatim>\<open>return this\<close>.\<close>

definition start :: "bool \<Rightarrow> nat \<Rightarrow> world \<Rightarrow> nat option outcome \<times> world" where
  "start looped tid w =
     (let t = tweens w tid in
      case (game t, object t) of
        (Some g, Some oid) \<Rightarrow>
          let w1 = (if \<not> looped
                    then dispatch (OnStart tid (object t)) (w\<lparr>manager := manager w @ [tid]\<rparr>)
                    else w);
              t2 = t\<lparr>startTime := Some (time_now w + delayTime t), isRunning := True\<rparr>
          in (case start_props looped (objects w oid) (map fst (valuesEnd t)) t2 of
                (Some e, t3) \<Rightarrow> (Throw e, w1\<lparr>tweens := (tweens w1)(tid := t3)\<rparr>)
              | (None, t3) \<Rightarrow> (Return (Some tid), w1\<lparr>tweens := (tweens w1)(tid := t3)\<rparr>))
      | _ \<Rightarrow> (Return None, w))"

section \<open>to, loop, yoyo, chain, pause\<close>

text \<open>
  \<^verbatim>\<open>to\<close> (lines 133 to 163; \<open>ease = None\<close> is \<^verbatim>\<open>null\<close>), \<^verbatim>\<open>loop\<close>, \<^verbatim>\<open>yoyo\<close>,
  \<^verbatim>\<open>chain\<close> and \<^verbatim>\<open>pause\<close>. The first three are named \<open>tween_to\<close>, \<open>tween_loop\<close> and
  \<open>tween_yoyo\<close>, since \<open>loop\<close> and \<open>yoyo\<close> are the fields.
\<close>

definition tween_to ::
  "jsobj \<Rightarrow> real \<Rightarrow> (jsval \<Rightarrow> jsval) option \<Rightarrow> bool \<Rightarrow> real \<Rightarrow> bool \<Rightarrow> bool \<Rightarrow> nat \<Rightarrow> world
     \<Rightarrow> nat option outcome \<times> world" where
  "tween_to properties dur ease autoStart delay lp yy tid w =
     (let w1 = upd_tween tid (\<lambda>t. t\<lparr>duration := dur, valuesEnd := properties\<rparr>) w;
          w2 = (case ease of None \<Rightarrow> w1
                | Some f \<Rightarrow> upd_tween tid (\<lambda>t. t\<lparr>easingFunction := f\<rparr>) w1);
          w3 = (if delay > 0 then upd_tween tid (\<lambda>t. t\<lparr>delayTime := delay\<rparr>) w2 else w2);
          w4 = upd_tween tid (\<lambda>t. t\<lparr>loop := lp, yoyo := yy, yoyoCount := 0\<rparr>) w3
      in if autoStart then start False tid w4 else (Return (Some tid), w4))"

definition tween_loop :: "bool \<Rightarrow> nat \<Rightarrow> world \<Rightarrow> world" where
  "tween_loop v tid w = upd_tween tid (\<lambda>t. t\<lparr>loop := v\<rparr>) w"

definition tween_yoyo :: "bool \<Rightarrow> nat \<Rightarrow> world \<Rightarrow> world" where
  "tween_yoyo v tid w = upd_tween tid (\<lambda>t. t\<lparr>yoyo := v, yoyoCount := 0\<rparr>) w"

definition chain_tween :: "nat \<Rightarrow> nat \<Rightarrow> world \<Rightarrow> world" where
  "chain_tween other tid w = upd_tween tid (\<lambda>t. t\<lparr>chainedTweens := chainedTweens t @ [other]\<rparr>) w"

definition pause :: "nat \<Rightarrow> world \<Rightarrow> world" where
  "pause tid w = upd_tween tid (\<lambda>t. t\<lparr>paused := True\<rparr>) w"

section \<open>reverse and reset\<close>

text \<open>\<^verbatim>\<open>reverse\<close>, lines 234 to 249: the swap of the start and end values key by key, the
  count, and the internal restart.\<close>

fun reverse_props :: "string list \<Rightarrow> tween \<Rightarrow> tween" where
  "reverse_props [] t = t"
| "reverse_props (p # ps) t =
     reverse_props ps
       (t\<lparr>valuesStart := js_set p (js_get (valuesEnd t) p) (valuesStart t),
          valuesEnd := js_set p (js_get (valuesStart t) p) (valuesEnd t)\<rparr>)"

definition reverse :: "nat \<Rightarrow> world \<Rightarrow> nat option outcome \<times> world" where
  "reverse tid w =
     (let t1 = reverse_props (map fst (valuesStart (tweens w tid))) (tweens w tid);
          t2 = t1\<lparr>yoyoCount := yoyoCount t1 + 1\<rparr>
      in start True tid (w\<lparr>tweens := (tweens w)(tid := t2)\<rparr>))"

text \<open>
  The for-in statements of \<^verbatim>\<open>reset\<close> and \<^verbatim>\<open>update\<close> write the target and read the tween.
  Writing a property of \<^verbatim>\<open>null\<close> is a \<^verbatim>\<open>TypeError\<close>, thrown at the first key.
\<close>

fun reset_props :: "tween \<Rightarrow> string list \<Rightarrow> jsobj \<Rightarrow> jsobj" where
  "reset_props t [] ob = ob"
| "reset_props t (p # ps) ob = reset_props t ps (js_set p (js_get (valuesStart t) p) ob)"

definition write_target ::
  "nat \<Rightarrow> (tween \<Rightarrow> string list \<Rightarrow> jsobj \<Rightarrow> jsobj) \<Rightarrow> world \<Rightarrow> error option \<times> world" where
  "write_target tid props w =
     (let t = tweens w tid; ps = map fst (valuesStart t) in
      case object t of
        None \<Rightarrow> (if ps = [] then (None, w) else (Some TypeError, w))
      | Some oid \<Rightarrow> (None, w\<lparr>objects := (objects w)(oid := props t ps (objects w oid))\<rparr>))"

text \<open>\<^verbatim>\<open>reset\<close>, lines 251 to 261.\<close>

definition reset :: "nat \<Rightarrow> world \<Rightarrow> nat option outcome \<times> world" where
  "reset tid w =
     (case write_target tid reset_props w of
        (Some e, w1) \<Rightarrow> (Throw e, w1)
      | (None, w1) \<Rightarrow> start True tid w1)"

section \<open>update\<close>

text \<open>\<^verbatim>\<open>update\<close>, lines 355 to 445, in its parts: the interpolation step, the update
  notification, and the branches taken at a clamped elapsed value of 1.\<close>

text \<open>
  The clamped elapsed fraction, for \<open>st \<le> time\<close> (\<^verbatim>\<open>update\<close> has returned otherwise).
  With a zero duration the quotient is \<^verbatim>\<open>NaN\<close> at \<open>time = st\<close> and \<^verbatim>\<open>Infinity\<close>
  after it, which the clamp replaces by 1.
\<close>

definition elapsed :: "real \<Rightarrow> real \<Rightarrow> real \<Rightarrow> jsval" where
  "elapsed time st d =
     (if d = 0 then (if time = st then NaN else Num 1)
      else if (time - st) / d > 1 then Num 1 else Num ((time - st) / d))"

text \<open>The value written to the key \<open>p\<close>: the interpolation function on keyframes, the linear
  blend otherwise.\<close>

definition blend :: "tween \<Rightarrow> string \<Rightarrow> jsval" where
  "blend t p =
     (case js_get (valuesEnd t) p of
        Arr ks \<Rightarrow> interpolationFunction t (Arr ks) (tempValue t)
      | e \<Rightarrow> js_add (js_get (valuesStart t) p)
                    (js_mul (js_sub e (js_get (valuesStart t) p)) (tempValue t)))"

fun update_props :: "tween \<Rightarrow> string list \<Rightarrow> jsobj \<Rightarrow> jsobj" where
  "update_props t [] ob = ob"
| "update_props t (p # ps) ob = update_props t ps (js_set p (blend t p) ob)"

fun start_chained :: "nat list \<Rightarrow> world \<Rightarrow> error option \<times> world" where
  "start_chained [] w = (None, w)"
| "start_chained (c # cs) w =
     (case start False c w of
        (Throw e, w1) \<Rightarrow> (Some e, w1)
      | (Return r, w1) \<Rightarrow> start_chained cs w1)"

text \<open>The completion notification followed by the loop over \<^verbatim>\<open>_chainedTweens\<close>.\<close>

definition complete :: "nat \<Rightarrow> world \<Rightarrow> error option \<times> world" where
  "complete tid w =
     (let w1 = dispatch (OnComplete tid (object (tweens w tid))) w
      in start_chained (chainedTweens (tweens w1 tid)) w1)"

definition keep_alive :: "nat option outcome \<times> world \<Rightarrow> bool outcome \<times> world" where
  "keep_alive r = (case r of (Throw e, w) \<Rightarrow> (Throw e, w) | (Return x, w) \<Rightarrow> (Return True, w))"

text \<open>What \<^verbatim>\<open>update\<close> does once \<^verbatim>\<open>_tempElapsed == 1\<close> holds.\<close>

definition finish :: "nat \<Rightarrow> world \<Rightarrow> bool outcome \<times> world" where
  "finish tid w =
     (let t = tweens w tid in
      if yoyo t then
        (if yoyoCount t = 0 then keep_alive (reverse tid w)
         else if \<not> loop t then
           (case complete tid w of
              (Some e, w1) \<Rightarrow> (Throw e, w1)
            | (None, w1) \<Rightarrow> (Return False, w1))
         else keep_alive (reverse tid (upd_tween tid (\<lambda>t. t\<lparr>yoyoCount := 0\<rparr>) w)))
      else if loop t then
        keep_alive (reset tid (upd_tween tid (\<lambda>t. t\<lparr>yoyoCount := 0\<rparr>) w))
      else
        (case complete tid w of
           (Some e, w1) \<Rightarrow> (Throw e, w1)
         | (None, w1) \<Rightarrow>
             (Return False,
              if chainedTweens (tweens w1 tid) = []
              then upd_tween tid (\<lambda>t. t\<lparr>isRunning := False\<rparr>) w1
              else w1)))"

text \<open>
  \<^verbatim>\<open>_startTime\<close> as the comparison and the subtraction of \<^verbatim>\<open>update\<close> read it:
  \<^verbatim>\<open>null\<close>, its value before the first start, converts to 0.
\<close>

definition startTime_num :: "tween \<Rightarrow> real" where
  "startTime_num t = (case startTime t of None \<Rightarrow> 0 | Some s \<Rightarrow> s)"

text \<open>The interpolation step of \<^verbatim>\<open>update\<close>: the two temporaries and the loop over the keys
  of \<^verbatim>\<open>_valuesStart\<close>.\<close>

definition interpolate :: "nat \<Rightarrow> real \<Rightarrow> world \<Rightarrow> error option \<times> world" where
  "interpolate tid time w =
     (let el = elapsed time (startTime_num (tweens w tid)) (duration (tweens w tid));
          w1 = upd_tween tid (\<lambda>t. t\<lparr>tempElapsed := el, tempValue := easingFunction t el\<rparr>) w
      in write_target tid update_props w1)"

definition update :: "nat \<Rightarrow> real \<Rightarrow> world \<Rightarrow> bool outcome \<times> world" where
  "update tid time w =
     (if paused (tweens w tid) \<or> time < startTime_num (tweens w tid) then (Return True, w)
      else
        (case interpolate tid time w of
           (Some e, w2) \<Rightarrow> (Throw e, w2)
         | (None, w2) \<Rightarrow>
             let w3 = dispatch (OnUpdate tid (object (tweens w2 tid)) (tempValue (tweens w2 tid))) w2
             in if tempElapsed (tweens w3 tid) = Num 1 then finish tid w3
                else (Return True, w3)))"

section \<open>Auxiliary notions for the properties\<close>

text \<open>\<open>start_touches t t'\<close>: the tweens \<open>t\<close> and \<open>t'\<close> differ at most in the four fields
  that \<^verbatim>\<open>start\<close> assigns.\<close>

definition start_touches :: "tween \<Rightarrow> tween \<Rightarrow> bool" where
  "start_touches t t' =
     (t' = t\<lparr>startTime := startTime t', isRunning := isRunning t',
            valuesStart := valuesStart t', valuesEnd := valuesEnd t'\<rparr>)"

text \<open>\<open>startable w c\<close>: tween \<open>c\<close> has a game and a target, so that \<^verbatim>\<open>start\<close> does not
  return at once. \<open>start_raises w c\<close>: moreover a key of its \<^verbatim>\<open>_valuesEnd\<close> is
  \<^verbatim>\<open>null\<close> or missing on its target.\<close>

definition startable :: "world \<Rightarrow> nat \<Rightarrow> bool" where
  "startable w c = (game (tweens w c) \<noteq> None \<and> object (tweens w c) \<noteq> None)"

definition start_raises :: "world \<Rightarrow> nat \<Rightarrow> bool" where
  "start_raises w c =
     (game (tweens w c) \<noteq> None \<and>
      (case object (tweens w c) of
         None \<Rightarrow> False
       | Some oid \<Rightarrow> list_ex (bad_key (objects w oid)) (map fst (valuesEnd (tweens w c)))))"

section \<open>Example data\<close>

text \<open>
  \<^verbatim>\<open>Phaser.Easing.Linear.None\<close> is the identity. \<open>end_keyframe\<close> is an interpolation
  function for the examples: it answers the last keyframe.
\<close>

definition Linear_None :: "jsval \<Rightarrow> jsval" where
  "Linear_None k = k"

definition end_keyframe :: "jsval \<Rightarrow> jsval \<Rightarrow> jsval" where
  "end_keyframe v k = (case v of Arr (x # xs) \<Rightarrow> last (x # xs) | e \<Rightarrow> Undefined)"

text \<open>A game at time 0 in which every tween is freshly constructed on the target 0.\<close>

definition demo :: world where
  "demo = \<lparr>tweens = (\<lambda>i. new_tween (Some 0) Linear_None end_keyframe),
           objects = (\<lambda>i. [(''x'', Num 0), (''y'', Num 5)]),
           time_now = 0, manager = [], signals = []\<rparr>"

text \<open>The same game, where tween 0 was constructed on \<^verbatim>\<open>null\<close>.\<close>

definition unbound :: world where
  "unbound = demo\<lparr>tweens := (tweens demo)(0 := new_tween None Linear_None end_keyframe)\<rparr>"


text \<open>Tween 0 of \<open>demo\<close> configured with a key \<open>z\<close> that the target does not have,
  between two keys that it has.\<close>

definition misconfigured :: world where
  "misconfigured =
     snd (tween_to [(''x'', Num 10), (''z'', Num 1), (''y'', Num 7)] 1000 None False 0 False False 0 demo)"

text \<open>Tween 0 of \<open>demo\<close>, looping over the keyframes \<^verbatim>\<open>[10]\<close> of \<open>x\<close>, started by
  \<^verbatim>\<open>to\<close> with \<^verbatim>\<open>autoStart\<close>.\<close>

definition looping_keyframes :: world where
  "looping_keyframes =
     snd (tween_to [(''x'', Arr [Num 10])] 1000 None True 0 True False 0 demo)"

text \<open>Tween 0 of \<open>demo\<close> taking \<open>x\<close> from 0 to 10 in 1000 time units, started at time 0;
  the same tween paused; and the same tween configured to loop.\<close>

definition started :: world where
  "started = snd (tween_to [(''x'', Num 10)] 1000 None True 0 False False 0 demo)"

definition started_paused :: world where
  "started_paused = pause 0 started"

definition started_loop :: world where
  "started_loop = tween_loop True 0 started"

text \<open>\<open>started\<close> with tween 2 chained to tween 0. Tween 0 configured as a yoyo and
  started, and the same after the update that ends its forward leg.\<close>

definition started_chain :: world where
  "started_chain = chain_tween 2 0 started"

definition started_yoyo :: world where
  "started_yoyo = snd (tween_to [(''x'', Num 10)] 1000 None True 0 False True 0 demo)"

definition yoyo_back :: world where
  "yoyo_back = snd (update 0 1000 started_yoyo)"

section \<open>Reachable states\<close>

text \<open>
  The states that a program reaches from a game of freshly constructed tweens by
  configuring tweens (\<^verbatim>\<open>to\<close>, \<^verbatim>\<open>loop\<close>, \<^verbatim>\<open>yoyo\<close>, \<^verbatim>\<open>chain\<close>), pausing them,
  starting them from outside, and calling \<^verbatim>\<open>update\<close>, while the clock advances and
  the rest of the program writes the targets. \<^verbatim>\<open>reverse\<close> and \<^verbatim>\<open>reset\<close> run only
  inside \<^verbatim>\<open>update\<close>. A call that throws leaves the state it had reached.
\<close>

inductive reachable :: "world \<Rightarrow> bool" where
  fresh: "\<forall>i. \<exists>ob ease interp. tweens w i = new_tween ob ease interp \<Longrightarrow> reachable w"
| to: "reachable w \<Longrightarrow> reachable (snd (tween_to props dur ease auto delay lp yy tid w))"
| loop: "reachable w \<Longrightarrow> reachable (tween_loop v tid w)"
| yoyo: "reachable w \<Longrightarrow> reachable (tween_yoyo v tid w)"
| chain: "reachable w \<Longrightarrow> reachable (chain_tween other tid w)"
| pause: "reachable w \<Longrightarrow> reachable (pause tid w)"
| start: "reachable w \<Longrightarrow> reachable (snd (start False tid w))"
| update: "reachable w \<Longrightarrow> reachable (snd (update tid time w))"
| clock: "reachable w \<Longrightarrow> reachable (w\<lparr>time_now := n\<rparr>)"
| target: "reachable w \<Longrightarrow> reachable (w\<lparr>objects := obs\<rparr>)"

text \<open>Tween 0 of \<open>demo\<close> as a looping yoyo, after the update that ends its forward leg.\<close>

definition yoyo_loop_back :: world where
  "yoyo_loop_back =
     snd (update 0 1000 (snd (tween_to [(''x'', Num 10)] 1000 None True 0 True True 0 demo)))"

text \<open>The game's clock set to \<open>n\<close>.\<close>

definition clock_at :: "real \<Rightarrow> world \<Rightarrow> world" where
  "clock_at n w = w\<lparr>time_now := n\<rparr>"

text \<open>The yoyo tween \<open>started_yoyo\<close> run to completion: the update at time 1000 ends the
  forward leg, the update at time 2000 ends the reversed leg.\<close>

definition yoyo_done :: world where
  "yoyo_done = snd (update 0 2000 (clock_at 2000 (snd (update 0 1000 (clock_at 1000 started_yoyo)))))"

text \<open>\<open>undisturbed t t'\<close>: the tween \<open>t'\<close> has the configuration, the start time and the
  captured values of \<open>t\<close>; only \<^verbatim>\<open>isRunning\<close>, the two temporaries, the delay, the game
  and the yoyo counter may differ.\<close>

definition undisturbed :: "tween \<Rightarrow> tween \<Rightarrow> bool" where
  "undisturbed t t' =
     (valuesStart t' = valuesStart t \<and> valuesEnd t' = valuesEnd t \<and>
      duration t' = duration t \<and> startTime t' = startTime t \<and>
      easingFunction t' = easingFunction t \<and>
      interpolationFunction t' = interpolationFunction t \<and>
      object t' = object t \<and> paused t' = paused t \<and> yoyo t' = yoyo t \<and> loop t' = loop t \<and>
      chainedTweens t' = chainedTweens t)"

text \<open>
  Two tweens on the target 0. Tween 0 takes \<open>x\<close> from 0 to 10 and is started at time 0;
  tween 2 is configured to take \<open>x\<close> to 20 and is chained to tween 0. \<open>pair_done\<close>: the
  update of tween 0 at time 1000, which completes it and starts tween 2.
  \<open>pair_moved\<close>: then the update of tween 2 at time 1500, which moves \<open>x\<close> to 15.
\<close>

definition chained_pair :: world where
  "chained_pair =
     chain_tween 2 0 (snd (tween_to [(''x'', Num 20)] 1000 None False 0 False False 2 started))"

definition pair_done :: world where
  "pair_done = snd (update 0 1000 (clock_at 1000 chained_pair))"

definition pair_moved :: world where
  "pair_moved = snd (update 2 1500 (clock_at 1500 pair_done))"
section \<open>Properties of objects\<close>

lemma map_of_js_set: "map_of (js_set k v ob) = (map_of ob)(k \<mapsto> v)"
  by (induction ob) (auto simp: fun_eq_iff)

lemma js_get_js_set: "js_get (js_set k v ob) k' = (if k' = k then v else js_get ob k')"
  by (simp add: js_get_def map_of_js_set)

lemma js_in_js_set: "js_in k' (js_set k v ob) = (k' = k \<or> js_in k' ob)"
  by (simp add: js_in_def map_of_js_set)

lemma js_set_same: "map_of ob k = Some v \<Longrightarrow> js_set k v ob = ob"
  by (induction ob) (auto split: if_splits)

lemma keys_js_set: "js_in k ob \<Longrightarrow> map fst (js_set k v ob) = map fst ob"
  by (induction ob) (auto simp: js_in_def split: if_splits)

lemma js_get_in: "js_get ob k \<noteq> Undefined \<Longrightarrow> js_in k ob"
  by (auto simp: js_get_def js_in_def split: option.splits)

section \<open>What start leaves alone\<close>

lemma start_touches_refl: "start_touches t t"
  by (simp add: start_touches_def)

lemma start_touches_trans: "start_touches a b \<Longrightarrow> start_touches b c \<Longrightarrow> start_touches a c"
  by (cases a; cases b; cases c) (simp add: start_touches_def)

lemma start_touches_fields:
  "start_touches t t' \<Longrightarrow>
     game t' = game t \<and> object t' = object t \<and> duration t' = duration t \<and>
     delayTime t' = delayTime t \<and> tempElapsed t' = tempElapsed t \<and> tempValue t' = tempValue t \<and>
     loop t' = loop t \<and> yoyo t' = yoyo t \<and> yoyoCount t' = yoyoCount t \<and>
     easingFunction t' = easingFunction t \<and> interpolationFunction t' = interpolationFunction t \<and>
     chainedTweens t' = chainedTweens t \<and> paused t' = paused t"
  by (cases t; cases t') (simp add: start_touches_def)

lemma start_prop_fields:
  "start_prop l ob p t = t\<lparr>valuesStart := valuesStart (start_prop l ob p t), valuesEnd := valuesEnd (start_prop l ob p t)\<rparr>"
  by (simp add: start_prop_def capture_def split: jsval.splits)

lemma start_props_fields:
  "start_props l ob ps t = (r, t') \<Longrightarrow> t' = t\<lparr>valuesStart := valuesStart t', valuesEnd := valuesEnd t'\<rparr>"
proof (induction ps arbitrary: t)
  case Nil
  then show ?case by auto
next
  case (Cons p ps)
  show ?case
  proof (cases "bad_key ob p")
    case True
    with Cons.prems show ?thesis by auto
  next
    case False
    let ?t1 = "start_prop l ob p t"
    from False Cons.prems have "start_props l ob ps ?t1 = (r, t')" by simp
    then have "t' = ?t1\<lparr>valuesStart := valuesStart t', valuesEnd := valuesEnd t'\<rparr>"
      by (rule Cons.IH)
    then show ?thesis
      by (subst (asm) start_prop_fields) simp
  qed
qed

lemma start_prop_keys: "map fst (valuesEnd (start_prop l ob p t)) = map fst (valuesEnd t)"
  by (auto simp: start_prop_def capture_def keys_js_set js_get_in split: jsval.splits)

lemma start_props_keys:
  "map fst (valuesEnd (snd (start_props l ob ps t))) = map fst (valuesEnd t)"
  by (induction ps arbitrary: t) (simp_all add: start_prop_keys)

lemma start_props_outcome:
  "fst (start_props l ob ps t) = (if list_ex (bad_key ob) ps then Some InterpolationError else None)"
  by (induction ps arbitrary: t) simp_all

lemma start_props_looped_valuesStart:
  "valuesStart (snd (start_props True ob ps t)) = valuesStart t"
  by (induction ps arbitrary: t) (simp_all add: start_prop_def capture_def split: jsval.splits)

lemma start_tween_other: "x \<noteq> c \<Longrightarrow> tweens (snd (start l c w)) x = tweens w x"
  by (simp add: start_def dispatch_def Let_def split: option.splits prod.splits)

lemma start_objects: "objects (snd (start l c w)) = objects w"
  by (simp add: start_def dispatch_def Let_def split: option.splits prod.splits)

lemma start_time_now: "time_now (snd (start l c w)) = time_now w"
  by (simp add: start_def dispatch_def Let_def split: option.splits prod.splits)

lemma start_touches_self: "start_touches (tweens w c) (tweens (snd (start l c w)) c)"
proof -
  have "start_touches (tweens w c) t3"
    if "start_props l ob ps (tweens w c\<lparr>startTime := Some s, isRunning := True\<rparr>) = (r, t3)"
    for ob ps s r t3
    using start_props_fields[OF that] by (cases "tweens w c"; cases t3) (simp add: start_touches_def)
  then show ?thesis
    by (auto simp: start_def dispatch_def Let_def start_touches_refl split: option.splits prod.splits)
qed

lemma start_touches_any: "start_touches (tweens w x) (tweens (snd (start l c w)) x)"
  by (cases "x = c") (simp_all add: start_touches_self start_tween_other start_touches_refl)


section \<open>start without a game or a target\<close>

text \<open>
  C6. Whatever the \<open>looped\<close> flag, when the tween's game or its target is \<^verbatim>\<open>null\<close>,
  \<^verbatim>\<open>start\<close> returns \<^verbatim>\<open>undefined\<close> without throwing and leaves the whole state as it
  was: no field of any tween changes, nothing is added to the manager, no signal is
  dispatched.
\<close>

theorem start_unbound_is_noop:
  "game (tweens w tid) = None \<or> object (tweens w tid) = None \<Longrightarrow>
     start looped tid w = (Return None, w)"
  by (auto simp: start_def Let_def split: option.splits)

theorem start_unbound_is_noop_witness:
  "object (tweens unbound 0) = None \<and>
   start False 0 unbound = (Return None, unbound) \<and>
   start True 0 unbound = (Return None, unbound)"
proof -
  have h: "game (tweens unbound 0) = None \<or> object (tweens unbound 0) = None"
    by (simp add: unbound_def new_tween_def)
  show ?thesis
    using start_unbound_is_noop[OF h, of False] start_unbound_is_noop[OF h, of True]
    by (simp add: unbound_def new_tween_def)
qed

section \<open>to\<close>

lemma start_keeps_easing_delay:
  "easingFunction (tweens (snd (start l c w)) x) = easingFunction (tweens w x) \<and>
   delayTime (tweens (snd (start l c w)) x) = delayTime (tweens w x)"
  using start_touches_fields[OF start_touches_any[of w x l c]] by simp

text \<open>
  C8. After \<^verbatim>\<open>to\<close>, with or without \<^verbatim>\<open>autoStart\<close>, the easing function is the
  supplied one when \<open>ease\<close> is not \<^verbatim>\<open>null\<close> and the previous one otherwise, and the
  delay is the supplied one when it is strictly positive and the previous one otherwise.
\<close>

theorem to_easing_and_delay:
  "easingFunction (tweens (snd (tween_to props dur ease auto delay lp yy tid w)) tid) =
     (case ease of None \<Rightarrow> easingFunction (tweens w tid) | Some f \<Rightarrow> f) \<and>
   delayTime (tweens (snd (tween_to props dur ease auto delay lp yy tid w)) tid) =
     (if delay > 0 then delay else delayTime (tweens w tid))"
  by (simp add: tween_to_def Let_def start_keeps_easing_delay upd_tween_def split: option.splits)

theorem to_easing_and_delay_witness:
  "delayTime (tweens (snd (tween_to [(''x'', Num 1)] 500 None True (- 3) False False 0
       (snd (tween_to [] 100 (Some (\<lambda>k. Num 1)) False 250 False False 0 demo)))) 0) = 250 \<and>
   easingFunction (tweens (snd (tween_to [(''x'', Num 1)] 500 None True (- 3) False False 0
       (snd (tween_to [] 100 (Some (\<lambda>k. Num 1)) False 250 False False 0 demo)))) 0) Null = Num 1 \<and>
   delayTime (tweens (snd (tween_to [] 100 (Some (\<lambda>k. Num 1)) False 250 False False 0 demo)) 0) = 250"
  using to_easing_and_delay[of "[(''x'', Num 1)]" 500 None True "- 3" False False 0
          "snd (tween_to [] 100 (Some (\<lambda>k. Num 1)) False 250 False False 0 demo)"]
        to_easing_and_delay[of "[]" 100 "Some (\<lambda>k. Num 1)" False 250 False False 0 demo]
  by simp

section \<open>start on a null or missing property\<close>

lemma start_props_abort:
  "\<not> list_ex (bad_key ob) pre \<Longrightarrow> bad_key ob p \<Longrightarrow>
     start_props l ob (pre @ p # post) t = (Some InterpolationError, snd (start_props l ob pre t))"
  by (induction pre arbitrary: t) simp_all

lemma start_prop_other_key:
  "q \<noteq> p \<Longrightarrow>
     map_of (valuesStart (start_prop l ob p t)) q = map_of (valuesStart t) q \<and>
     map_of (valuesEnd (start_prop l ob p t)) q = map_of (valuesEnd t) q"
  by (simp add: start_prop_def capture_def map_of_js_set split: jsval.splits)

lemma start_props_other_keys:
  "q \<notin> set ps \<Longrightarrow>
     map_of (valuesStart (snd (start_props l ob ps t))) q = map_of (valuesStart t) q \<and>
     map_of (valuesEnd (snd (start_props l ob ps t))) q = map_of (valuesEnd t) q"
  by (induction ps arbitrary: t) (simp_all add: start_prop_other_key)

lemma start_bound:
  "game (tweens w tid) = Some g \<Longrightarrow> object (tweens w tid) = Some oid \<Longrightarrow>
   start_props looped (objects w oid) (map fst (valuesEnd (tweens w tid)))
     ((tweens w tid)\<lparr>startTime := Some (time_now w + delayTime (tweens w tid)), isRunning := True\<rparr>) = (r, t3) \<Longrightarrow>
   start looped tid w =
     ((case r of Some e \<Rightarrow> Throw e | None \<Rightarrow> Return (Some tid)),
      (if looped then w else dispatch (OnStart tid (Some oid)) (w\<lparr>manager := manager w @ [tid]\<rparr>))
        \<lparr>tweens := (tweens w)(tid := t3)\<rparr>)"
  by (auto simp: start_def Let_def dispatch_def split: option.splits)

text \<open>
  C5, as the code has it. When \<^verbatim>\<open>start\<close> meets a key \<open>p\<close> of \<^verbatim>\<open>_valuesEnd\<close> whose
  value on the target is \<^verbatim>\<open>null\<close> or missing, after the valid keys \<open>pre\<close>, it throws
  the interpolation error and the call ends there: the tween is left as the loop over
  \<open>pre\<close> alone leaves it, and no key outside \<open>pre\<close> (so none of the keys after
  \<open>p\<close>, unless it also occurs before) is captured or rewritten.
\<close>

theorem start_raise_aborts_call:
  assumes "game (tweens w tid) = Some g" and "object (tweens w tid) = Some oid"
    and "map fst (valuesEnd (tweens w tid)) = pre @ p # post"
    and "\<not> list_ex (bad_key (objects w oid)) pre" and "bad_key (objects w oid) p"
    and "q \<notin> set pre"
  shows "fst (start looped tid w) = Throw InterpolationError \<and>
         tweens (snd (start looped tid w)) tid =
           snd (start_props looped (objects w oid) pre
                  ((tweens w tid)\<lparr>startTime := Some (time_now w + delayTime (tweens w tid)),
                                  isRunning := True\<rparr>)) \<and>
         map_of (valuesStart (tweens (snd (start looped tid w)) tid)) q =
           map_of (valuesStart (tweens w tid)) q \<and>
         map_of (valuesEnd (tweens (snd (start looped tid w)) tid)) q =
           map_of (valuesEnd (tweens w tid)) q \<and>
         isRunning (tweens (snd (start looped tid w)) tid) \<and>
         startTime (tweens (snd (start looped tid w)) tid) =
           Some (time_now w + delayTime (tweens w tid)) \<and>
         manager (snd (start looped tid w)) = (if looped then manager w else manager w @ [tid]) \<and>
         signals (snd (start looped tid w)) =
           (if looped then signals w else signals w @ [OnStart tid (Some oid)])"
proof -
  let ?t2 = "(tweens w tid)\<lparr>startTime := Some (time_now w + delayTime (tweens w tid)), isRunning := True\<rparr>"
  let ?t3 = "snd (start_props looped (objects w oid) pre ?t2)"
  have "start_props looped (objects w oid) (map fst (valuesEnd (tweens w tid))) ?t2 =
          (Some InterpolationError, ?t3)"
    using assms(3-5) by (simp add: start_props_abort)
  note sb = start_bound[OF assms(1,2) this]
  from sb have "fst (start looped tid w) = Throw InterpolationError"
    and "tweens (snd (start looped tid w)) tid = ?t3"
    by (simp_all add: dispatch_def)
  moreover have "map_of (valuesStart ?t3) q = map_of (valuesStart (tweens w tid)) q"
    and "map_of (valuesEnd ?t3) q = map_of (valuesEnd (tweens w tid)) q"
    using start_props_other_keys[OF assms(6), of looped "objects w oid" ?t2] by simp_all
  moreover have "isRunning ?t3 \<and> startTime ?t3 = Some (time_now w + delayTime (tweens w tid))"
  proof -
    obtain r where "start_props looped (objects w oid) pre ?t2 = (r, ?t3)"
      by (metis prod.collapse)
    from start_props_fields[OF this]
    have "isRunning ?t3 = isRunning ?t2 \<and> startTime ?t3 = startTime ?t2"
      by (cases ?t2; cases ?t3) simp
    then show ?thesis by simp
  qed
  moreover have "manager (snd (start looped tid w)) = (if looped then manager w else manager w @ [tid])"
    and "signals (snd (start looped tid w)) =
           (if looped then signals w else signals w @ [OnStart tid (Some oid)])"
    by (simp_all add: sb dispatch_def)
  ultimately show ?thesis by simp
qed

theorem start_raise_aborts_call_witness:
  "fst (start False 0 misconfigured) = Throw InterpolationError \<and>
   map_of (valuesStart (tweens (snd (start False 0 misconfigured)) 0)) ''y'' = None \<and>
   map_of (valuesEnd (tweens (snd (start False 0 misconfigured)) 0)) ''y'' = Some (Num 7)"
proof -
  have 1: "game (tweens misconfigured 0) = Some Game" and 2: "object (tweens misconfigured 0) = Some 0"
    and 3: "map fst (valuesEnd (tweens misconfigured 0)) = [''x''] @ ''z'' # [''y'']"
    and 4: "\<not> list_ex (bad_key (objects misconfigured 0)) [''x'']"
    and 5: "bad_key (objects misconfigured 0) ''z''"
    and 6: "''y'' \<notin> set [''x'']"
    and 7: "valuesStart (tweens misconfigured 0) = []"
    and 8: "valuesEnd (tweens misconfigured 0) = [(''x'', Num 10), (''z'', Num 1), (''y'', Num 7)]"
    by (simp_all add: misconfigured_def tween_to_def demo_def new_tween_def upd_tween_def bad_key_def
          js_get_def js_in_def)
  note inst = start_raise_aborts_call[OF 1 2 3 4 5 6, of False]
  from inst have a: "fst (start False 0 misconfigured) = Throw InterpolationError" by blast
  from inst have b: "map_of (valuesStart (tweens (snd (start False 0 misconfigured)) 0)) ''y'' =
      map_of (valuesStart (tweens misconfigured 0)) ''y''" by blast
  from inst have c: "map_of (valuesEnd (tweens (snd (start False 0 misconfigured)) 0)) ''y'' =
      map_of (valuesEnd (tweens misconfigured 0)) ''y''" by blast
  show ?thesis
    unfolding a b c by (simp add: 7 8)
qed

text \<open>
  The claim C5 says that the keys after the offending one are still processed. They are
  not: \<open>y\<close> is a valid key of the target, it comes after the missing \<open>z\<close>, and it is
  not captured.
\<close>

theorem start_raise_skips_later_keys:
  "fst (start False 0 misconfigured) = Throw InterpolationError \<and>
   bad_key (objects misconfigured 0) ''y'' = False \<and>
   map fst (valuesEnd (tweens misconfigured 0)) = [''x'', ''z'', ''y''] \<and>
   valuesStart (tweens (snd (start False 0 misconfigured)) 0) = [(''x'', Num 0)]"
  by (simp add: misconfigured_def tween_to_def demo_def new_tween_def upd_tween_def bad_key_def
        js_get_def js_in_def start_def Let_def dispatch_def start_prop_def capture_def)

section \<open>The outcome and the effects of start\<close>

lemma start_not_startable: "\<not> startable w c \<Longrightarrow> start l c w = (Return None, w)"
  by (auto simp: start_def startable_def Let_def split: option.splits)

lemma start_outcome:
  "fst (start l c w) =
     (if start_raises w c then Throw InterpolationError
      else if startable w c then Return (Some c) else Return None)"
proof (cases "game (tweens w c)")
  case None
  then show ?thesis by (simp add: start_not_startable start_raises_def startable_def)
next
  case g: (Some g)
  show ?thesis
  proof (cases "object (tweens w c)")
    case None
    then show ?thesis by (simp add: start_not_startable start_raises_def startable_def)
  next
    case (Some oid)
    obtain r t3 where sp: "start_props l (objects w oid) (map fst (valuesEnd (tweens w c)))
       ((tweens w c)\<lparr>startTime := Some (time_now w + delayTime (tweens w c)), isRunning := True\<rparr>) = (r, t3)"
      by (meson surj_pair)
    have "r = (if list_ex (bad_key (objects w oid)) (map fst (valuesEnd (tweens w c)))
               then Some InterpolationError else None)"
      using start_props_outcome[of l "objects w oid" "map fst (valuesEnd (tweens w c))"] sp
      by (metis fst_conv)
    then show ?thesis
      by (simp add: start_bound[OF g Some sp] start_raises_def startable_def g Some)
  qed
qed

lemma start_keys:
  "map fst (valuesEnd (tweens (snd (start l c w)) x)) = map fst (valuesEnd (tweens w x))"
proof (cases "x = c \<and> startable w c")
  case True
  then obtain g oid where g: "game (tweens w c) = Some g" and o: "object (tweens w c) = Some oid"
    by (auto simp: startable_def)
  obtain r t3 where sp: "start_props l (objects w oid) (map fst (valuesEnd (tweens w c)))
       ((tweens w c)\<lparr>startTime := Some (time_now w + delayTime (tweens w c)), isRunning := True\<rparr>) = (r, t3)"
    by (meson surj_pair)
  have "map fst (valuesEnd t3) = map fst (valuesEnd (tweens w c))"
    using start_props_keys[of l "objects w oid" "map fst (valuesEnd (tweens w c))"] sp
    by (metis snd_conv tween.select_convs(4) tween.surjective tween.update_convs(7,16))
  then show ?thesis
    using True by (simp add: start_bound[OF g o sp])
next
  case False
  then show ?thesis
    by (cases "x = c") (auto simp: start_tween_other start_not_startable)
qed

lemma start_startable: "startable (snd (start l c w)) x = startable w x"
  using start_touches_fields[OF start_touches_any[of w x l c]] by (simp add: startable_def)

lemma start_start_raises: "start_raises (snd (start l c w)) x = start_raises w x"
proof -
  have "game (tweens (snd (start l c w)) x) = game (tweens w x)"
    and "object (tweens (snd (start l c w)) x) = object (tweens w x)"
    using start_touches_fields[OF start_touches_any[of w x l c]] by simp_all
  then show ?thesis
    unfolding start_raises_def by (simp only: start_objects start_keys)
qed

lemma start_signals:
  "signals (snd (start l c w)) =
     signals w @ (if startable w c \<and> \<not> l then [OnStart c (object (tweens w c))] else [])"
  by (auto simp: start_def startable_def dispatch_def Let_def split: option.splits prod.splits)

lemma start_manager:
  "manager (snd (start l c w)) = manager w @ (if startable w c \<and> \<not> l then [c] else [])"
  by (auto simp: start_def startable_def dispatch_def Let_def split: option.splits prod.splits)

lemma start_props_running:
  "isRunning (snd (start_props l ob ps t)) = isRunning t \<and>
   startTime (snd (start_props l ob ps t)) = startTime t"
proof -
  obtain r t' where sp: "start_props l ob ps t = (r, t')" by (meson surj_pair)
  show ?thesis
    using start_props_fields[OF sp] sp by (cases t; cases t') simp
qed

lemma start_running:
  "isRunning (tweens (snd (start l c w)) x) = ((x = c \<and> startable w c) \<or> isRunning (tweens w x))"
proof (cases "x = c \<and> startable w c")
  case True
  then obtain g oid where g: "game (tweens w c) = Some g" and o: "object (tweens w c) = Some oid"
    by (auto simp: startable_def)
  obtain r t3 where sp: "start_props l (objects w oid) (map fst (valuesEnd (tweens w c)))
       ((tweens w c)\<lparr>startTime := Some (time_now w + delayTime (tweens w c)), isRunning := True\<rparr>) = (r, t3)"
    by (meson surj_pair)
  have "isRunning t3"
    using start_props_running[of l "objects w oid" "map fst (valuesEnd (tweens w c))"] sp
    by (metis snd_conv tween.select_convs(16) tween.surjective tween.update_convs(16))
  then show ?thesis using True by (simp add: start_bound[OF g o sp])
next
  case False
  then show ?thesis
    by (cases "x = c") (auto simp: start_tween_other start_not_startable)
qed

section \<open>The loop over the chained tweens\<close>

lemma start_startTime:
  "startable w c \<Longrightarrow>
     startTime (tweens (snd (start l c w)) c) = Some (time_now w + delayTime (tweens w c))"
proof -
  assume "startable w c"
  then obtain g oid where g: "game (tweens w c) = Some g" and o: "object (tweens w c) = Some oid"
    by (auto simp: startable_def)
  obtain r t3 where sp: "start_props l (objects w oid) (map fst (valuesEnd (tweens w c)))
       ((tweens w c)\<lparr>startTime := Some (time_now w + delayTime (tweens w c)), isRunning := True\<rparr>) = (r, t3)"
    by (meson surj_pair)
  have "startTime t3 = Some (time_now w + delayTime (tweens w c))"
    using start_props_running[of l "objects w oid" "map fst (valuesEnd (tweens w c))"] sp
    by (metis snd_conv tween.select_convs(7) tween.surjective tween.update_convs(7,16))
  then show ?thesis by (simp add: start_bound[OF g o sp])
qed

lemma start_chained_Cons:
  "start_chained (c # cs) w =
     (if start_raises w c then (Some InterpolationError, snd (start False c w))
      else start_chained cs (snd (start False c w)))"
  using start_outcome[of False c w]
  by (cases "start False c w") (auto split: outcome.splits)

lemma start_chained_objects: "objects (snd (start_chained cs w)) = objects w"
  by (induction cs arbitrary: w) (simp_all add: start_chained_Cons start_objects del: start_chained.simps(2))

lemma start_chained_time_now: "time_now (snd (start_chained cs w)) = time_now w"
  by (induction cs arbitrary: w) (simp_all add: start_chained_Cons start_time_now del: start_chained.simps(2))

lemma start_chained_touches: "start_touches (tweens w x) (tweens (snd (start_chained cs w)) x)"
proof (induction cs arbitrary: w)
  case Nil
  show ?case by (simp add: start_touches_refl)
next
  case (Cons c cs)
  show ?case
    using start_touches_trans[OF start_touches_any[of w x False c] Cons.IH[of "snd (start False c w)"]]
    by (simp add: start_chained_Cons start_touches_any del: start_chained.simps(2))
qed

lemma start_chained_other:
  "x \<notin> set cs \<Longrightarrow> tweens (snd (start_chained cs w)) x = tweens w x"
  by (induction cs arbitrary: w)
     (simp_all add: start_chained_Cons start_tween_other del: start_chained.simps(2))

lemma start_chained_running_mono:
  "isRunning (tweens w x) \<Longrightarrow> isRunning (tweens (snd (start_chained cs w)) x)"
  by (induction cs arbitrary: w)
     (simp_all add: start_chained_Cons start_running del: start_chained.simps(2))

lemma list_ex_start_raises_start:
  "list_ex (start_raises (snd (start l c w))) cs = list_ex (start_raises w) cs"
  by (induction cs) (simp_all add: start_start_raises)

lemma filter_startable_start:
  "filter (startable (snd (start l c w))) cs = filter (startable w) cs"
  by (induction cs) (simp_all add: start_startable)

lemma start_object: "object (tweens (snd (start l c w)) x) = object (tweens w x)"
  using start_touches_fields[OF start_touches_any[of w x l c]] by simp

lemma start_delayTime: "delayTime (tweens (snd (start l c w)) x) = delayTime (tweens w x)"
  using start_touches_fields[OF start_touches_any[of w x l c]] by simp

lemma start_chained_effects:
  "\<not> list_ex (start_raises w) cs \<Longrightarrow>
     fst (start_chained cs w) = None \<and>
     signals (snd (start_chained cs w)) =
       signals w @ map (\<lambda>c. OnStart c (object (tweens w c))) (filter (startable w) cs) \<and>
     manager (snd (start_chained cs w)) = manager w @ filter (startable w) cs \<and>
     (\<forall>c \<in> set cs. startable w c \<longrightarrow>
        isRunning (tweens (snd (start_chained cs w)) c) \<and>
        startTime (tweens (snd (start_chained cs w)) c) \<noteq> None) \<and>
     (\<forall>x. isRunning (tweens (snd (start_chained cs w)) x) =
          (isRunning (tweens w x) \<or> (x \<in> set cs \<and> startable w x)))"
proof (induction cs arbitrary: w)
  case Nil
  show ?case by simp
next
  case (Cons c cs)
  let ?w1 = "snd (start False c w)"
  from Cons.prems have nr: "\<not> start_raises w c" and rest: "\<not> list_ex (start_raises ?w1) cs"
    by (simp_all add: list_ex_start_raises_start)
  note IH = Cons.IH[OF rest]
  have eq: "start_chained (c # cs) w = start_chained cs ?w1"
    using nr by (simp add: start_chained_Cons del: start_chained.simps(2))
  have obj: "(\<lambda>c. OnStart c (object (tweens ?w1 c))) = (\<lambda>c. OnStart c (object (tweens w c)))"
    by (simp add: start_object)
  have 1: "fst (start_chained (c # cs) w) = None"
    using IH unfolding eq by blast
  have 2: "signals (snd (start_chained (c # cs) w)) =
       signals w @ map (\<lambda>c. OnStart c (object (tweens w c))) (filter (startable w) (c # cs))"
    using IH unfolding eq by (simp add: obj filter_startable_start start_signals)
  have 3: "manager (snd (start_chained (c # cs) w)) = manager w @ filter (startable w) (c # cs)"
    using IH unfolding eq by (simp add: filter_startable_start start_manager)
  have 5: "\<forall>x. isRunning (tweens (snd (start_chained (c # cs) w)) x) =
          (isRunning (tweens w x) \<or> (x \<in> set (c # cs) \<and> startable w x))"
    using IH unfolding eq by (auto simp: start_running start_startable)
  have 4: "\<forall>d \<in> set (c # cs). startable w d \<longrightarrow>
        isRunning (tweens (snd (start_chained (c # cs) w)) d) \<and>
        startTime (tweens (snd (start_chained (c # cs) w)) d) \<noteq> None"
  proof (intro ballI impI conjI)
    fix d assume d: "d \<in> set (c # cs)" and s: "startable w d"
    show "isRunning (tweens (snd (start_chained (c # cs) w)) d)"
      using 5 d s by blast
    show "startTime (tweens (snd (start_chained (c # cs) w)) d) \<noteq> None"
    proof (cases "d \<in> set cs")
      case True
      then show ?thesis using IH s unfolding eq by (simp add: start_startable)
    next
      case False
      with d have "d = c" by simp
      then show ?thesis
        unfolding eq using False s by (simp add: start_chained_other start_startTime)
    qed
  qed
  from 1 2 3 4 5 show ?case by blast
qed

section \<open>What update, reverse and reset write\<close>

lemma update_props_get:
  "js_get (update_props t ps ob) p = (if p \<in> set ps then blend t p else js_get ob p)"
  by (induction ps arbitrary: ob) (auto simp: js_get_js_set)

lemma reset_props_get:
  "js_get (reset_props t ps ob) p = (if p \<in> set ps then js_get (valuesStart t) p else js_get ob p)"
  by (induction ps arbitrary: ob) (auto simp: js_get_js_set)

lemma reset_props_cong: "valuesStart t = valuesStart t' \<Longrightarrow> reset_props t ps ob = reset_props t' ps ob"
  by (induction ps arbitrary: ob) simp_all

lemma write_target_bound:
  "object (tweens w tid) = Some oid \<Longrightarrow>
     write_target tid props w =
       (None, w\<lparr>objects := (objects w)
           (oid := props (tweens w tid) (map fst (valuesStart (tweens w tid))) (objects w oid))\<rparr>)"
  by (simp add: write_target_def Let_def)

lemma write_target_tweens: "tweens (snd (write_target tid props w)) = tweens w"
  by (simp add: write_target_def Let_def split: option.splits)

lemma write_target_signals:
  "signals (snd (write_target tid props w)) = signals w \<and>
   manager (snd (write_target tid props w)) = manager w \<and>
   time_now (snd (write_target tid props w)) = time_now w"
  by (simp add: write_target_def Let_def split: option.splits)

lemma blend_scalar:
  "js_get (valuesStart t) p = Num s \<Longrightarrow> js_get (valuesEnd t) p = Num v \<Longrightarrow> tempValue t = Num r \<Longrightarrow>
     blend t p = Num (s + (v - s) * r)"
  by (simp add: blend_def js_add_def js_mul_def js_sub_def)

lemma snd_keep_alive: "snd (keep_alive r) = snd r"
  by (simp add: keep_alive_def split: prod.splits outcome.splits)

lemma reverse_objects: "objects (snd (reverse tid w)) = objects w"
  by (simp add: reverse_def Let_def start_objects)

lemma complete_objects: "objects (snd (complete tid w)) = objects w"
  by (simp add: complete_def Let_def start_chained_objects dispatch_def)

lemma snd_case_complete:
  "snd (case r of (Some e, w1) \<Rightarrow> (Throw e, w1) | (None, w1) \<Rightarrow> (Return False, f w1)) =
     (case fst r of Some e \<Rightarrow> snd r | None \<Rightarrow> f (snd r))"
  by (cases r) (simp split: option.splits)

lemma finish_objects_no_reset:
  "yoyo (tweens w tid) \<or> \<not> loop (tweens w tid) \<Longrightarrow> objects (snd (finish tid w)) = objects w"
  by (auto simp: finish_def Let_def snd_keep_alive reverse_objects upd_tween_def
        split: prod.splits option.splits dest: arg_cong[where f=snd and x="complete tid w"]
        simp: complete_objects[of tid w, symmetric])

lemma finish_objects_reset:
  assumes "\<not> yoyo (tweens w tid)" and "loop (tweens w tid)" and "object (tweens w tid) = Some oid"
  shows "objects (snd (finish tid w)) =
           (objects w)(oid := reset_props (tweens w tid) (map fst (valuesStart (tweens w tid)))
                                (objects w oid))"
proof -
  let ?w0 = "upd_tween tid (\<lambda>t. t\<lparr>yoyoCount := 0\<rparr>) w"
  have o: "object (tweens ?w0 tid) = Some oid"
    using assms(3) by (simp add: upd_tween_def)
  have "objects (snd (reset tid ?w0)) =
          (objects w)(oid := reset_props (tweens ?w0 tid) (map fst (valuesStart (tweens ?w0 tid)))
                                (objects w oid))"
  proof -
    have "objects (snd (reset tid ?w0)) =
          (objects ?w0)(oid := reset_props (tweens ?w0 tid) (map fst (valuesStart (tweens ?w0 tid)))
                                (objects ?w0 oid))"
      by (simp add: reset_def write_target_bound[OF o] start_objects)
    then show ?thesis by (simp add: upd_tween_def)
  qed
  moreover have "reset_props (tweens ?w0 tid) = reset_props (tweens w tid)"
    by (intro ext reset_props_cong) (simp add: upd_tween_def)
  moreover have "valuesStart (tweens ?w0 tid) = valuesStart (tweens w tid)"
    by (simp add: upd_tween_def)
  ultimately show ?thesis
    using assms(1,2) by (simp add: finish_def Let_def snd_keep_alive)
qed

section \<open>The interpolation step\<close>

lemma elapsed_within: "0 < d \<Longrightarrow> e \<le> d \<Longrightarrow> elapsed (st + e) st d = Num (e / d)"
  by (simp add: elapsed_def)

lemma elapsed_after: "0 < d \<Longrightarrow> st + d \<le> time \<Longrightarrow> elapsed time st d = Num 1"
  by (auto simp: elapsed_def field_simps)

lemma interpolate_bound:
  "object (tweens w tid) = Some oid \<Longrightarrow>
     interpolate tid time w =
       (None,
        w\<lparr>tweens := (tweens w)
             (tid := (tweens w tid)
                \<lparr>tempElapsed := elapsed time (startTime_num (tweens w tid)) (duration (tweens w tid)),
                 tempValue := easingFunction (tweens w tid)
                    (elapsed time (startTime_num (tweens w tid)) (duration (tweens w tid)))\<rparr>),
          objects := (objects w)
             (oid := update_props
                ((tweens w tid)
                   \<lparr>tempElapsed := elapsed time (startTime_num (tweens w tid)) (duration (tweens w tid)),
                    tempValue := easingFunction (tweens w tid)
                      (elapsed time (startTime_num (tweens w tid)) (duration (tweens w tid)))\<rparr>)
                (map fst (valuesStart (tweens w tid))) (objects w oid))\<rparr>)"
  by (simp add: interpolate_def Let_def write_target_def upd_tween_def)

lemma update_live:
  "\<not> paused (tweens w tid) \<Longrightarrow> startTime_num (tweens w tid) \<le> time \<Longrightarrow>
   interpolate tid time w = (None, w2) \<Longrightarrow>
     update tid time w =
       (if tempElapsed (tweens w2 tid) = Num 1
        then finish tid (dispatch (OnUpdate tid (object (tweens w2 tid)) (tempValue (tweens w2 tid))) w2)
        else (Return True, dispatch (OnUpdate tid (object (tweens w2 tid)) (tempValue (tweens w2 tid))) w2))"
  by (simp add: update_def Let_def dispatch_def)

lemma map_of_js_get: "map_of ob p = Some v \<Longrightarrow> js_get ob p = v \<and> p \<in> set (map fst ob)"
  by (auto simp: js_get_def dest: map_of_SomeD intro: rev_image_eqI)

text \<open>
  C1, as the code has it. For a started tween that is not paused, with a scalar key \<open>p\<close>
  captured at \<open>s\<close> and configured to end at \<open>v\<close>, a duration \<open>d > 0\<close> and \<open>0 \<le> e \<le> d\<close>,
  the interpolation step of \<^verbatim>\<open>update(startTime + e)\<close> writes \<open>s + (v - s) * r\<close> to the
  target's \<open>p\<close>, where \<open>r\<close> is the easing function at \<open>e / d\<close>. That is the target's
  value when \<^verbatim>\<open>update\<close> returns, except on the tick that ends a cycle of a looping,
  non-yoyo tween (\<open>e = d\<close>), where \<^verbatim>\<open>reset\<close> has put \<open>s\<close> back.
\<close>

theorem update_scalar_property:
  assumes "\<not> paused (tweens w tid)"
    and "startTime (tweens w tid) = Some st"
    and "duration (tweens w tid) = d" and "0 < d" and "0 \<le> e" and "e \<le> d"
    and "object (tweens w tid) = Some oid"
    and "map_of (valuesStart (tweens w tid)) p = Some (Num s)"
    and "js_get (valuesEnd (tweens w tid)) p = Num v"
    and "easingFunction (tweens w tid) (Num (e / d)) = Num r"
  shows "js_get (objects (snd (interpolate tid (st + e) w)) oid) p = Num (s + (v - s) * r) \<and>
         js_get (objects (snd (update tid (st + e) w)) oid) p =
           (if e = d \<and> loop (tweens w tid) \<and> \<not> yoyo (tweens w tid)
            then Num s else Num (s + (v - s) * r))"
proof -
  let ?t = "tweens w tid"
  let ?t1 = "?t\<lparr>tempElapsed := Num (e / d), tempValue := Num r\<rparr>"
  let ?ks = "map fst (valuesStart ?t)"
  define w2 where "w2 = w\<lparr>tweens := (tweens w)(tid := ?t1),
               objects := (objects w)(oid := update_props ?t1 ?ks (objects w oid))\<rparr>"
  define w3 where "w3 = dispatch (OnUpdate tid (object (tweens w2 tid)) (tempValue (tweens w2 tid))) w2"
  have st: "startTime_num ?t = st"
    using assms(2) by (simp add: startTime_num_def)
  have el: "elapsed (st + e) (startTime_num ?t) (duration ?t) = Num (e / d)"
    using assms(3,4,6) by (simp add: st elapsed_within)
  have ip: "interpolate tid (st + e) w = (None, w2)"
    using interpolate_bound[OF assms(7), of "st + e"] by (simp add: el assms(10) w2_def)
  from map_of_js_get[OF assms(8)] have sv: "js_get (valuesStart ?t) p = Num s" and pk: "p \<in> set ?ks"
    by simp_all
  have bl: "blend ?t1 p = Num (s + (v - s) * r)"
    by (rule blend_scalar) (simp_all add: sv assms(9))
  have written: "js_get (objects w2 oid) p = Num (s + (v - s) * r)"
    using pk by (simp add: w2_def update_props_get bl)
  have t3: "tweens w3 tid = ?t1" and o3: "objects w3 = objects w2"
    by (simp_all add: w3_def w2_def dispatch_def)
  have one: "(tempElapsed (tweens w2 tid) = Num 1) = (e = d)"
    using assms(4) by (auto simp: w2_def)
  have up: "update tid (st + e) w = (if e = d then finish tid w3 else (Return True, w3))"
    using update_live[OF assms(1) _ ip] assms(5) by (simp add: st one w3_def)
  have final: "js_get (objects (snd (update tid (st + e) w)) oid) p =
           (if e = d \<and> loop ?t \<and> \<not> yoyo ?t then Num s else Num (s + (v - s) * r))"
  proof (cases "e = d")
    case False
    show ?thesis unfolding up using False by (simp add: o3 written)
  next
    case True
    have u: "snd (update tid (st + e) w) = snd (finish tid w3)"
      unfolding up using True by simp
    show ?thesis
    proof (cases "loop ?t \<and> \<not> yoyo ?t")
      case False
      then have "yoyo (tweens w3 tid) \<or> \<not> loop (tweens w3 tid)"
        by (auto simp: t3)
      from finish_objects_no_reset[OF this] have "objects (snd (finish tid w3)) = objects w2"
        by (simp add: o3)
      then show ?thesis
        unfolding u using False by (auto simp: written)
    next
      case lp: True
      have "\<not> yoyo (tweens w3 tid)" and "loop (tweens w3 tid)" and "object (tweens w3 tid) = Some oid"
        using lp assms(7) by (simp_all add: t3)
      from finish_objects_reset[OF this]
      have "js_get (objects (snd (finish tid w3)) oid) p = Num s"
        using pk sv by (simp add: t3 reset_props_get)
      then show ?thesis
        unfolding u using lp True by auto
    qed
  qed
  from written final show ?thesis by (simp add: ip)
qed

lemma started_facts:
  "paused (tweens started 0) = False" "startTime (tweens started 0) = Some 0"
  "duration (tweens started 0) = 1000" "object (tweens started 0) = Some 0"
  "valuesStart (tweens started 0) = [(''x'', Num 0)]"
  "valuesEnd (tweens started 0) = [(''x'', Num 10)]"
  "easingFunction (tweens started 0) = Linear_None"
  "loop (tweens started 0) = False" "yoyo (tweens started 0) = False"
  "objects started 0 = [(''x'', Num 0), (''y'', Num 5)]"
  "chainedTweens (tweens started 0) = []" "isRunning (tweens started 0) = True"
  "game (tweens started 0) = Some Game" "time_now started = 0" "delayTime (tweens started 0) = 0"
  "yoyoCount (tweens started 0) = 0"
  by (simp_all add: started_def demo_def tween_to_def start_def upd_tween_def new_tween_def
        dispatch_def capture_def js_get_def js_in_def bad_key_def start_prop_def Let_def)

theorem update_scalar_property_witness:
  "js_get (objects (snd (update 0 (0 + 250) started)) 0) ''x'' = Num (5 / 2) \<and>
   js_get (objects (snd (update 0 (0 + 1000) started)) 0) ''x'' = Num 10 \<and>
   js_get (objects (snd (interpolate 0 (0 + 1000) started_loop)) 0) ''x'' = Num 10 \<and>
   js_get (objects (snd (update 0 (0 + 1000) started_loop)) 0) ''x'' = Num 0"
proof -
  have a: "js_get (objects (snd (update 0 (0 + 250) started)) 0) ''x'' = Num (5 / 2)"
    using update_scalar_property[of started 0 0 1000 250 0 "''x''" 0 10 "1 / 4"]
    by (simp add: started_facts Linear_None_def js_get_def)
  have b: "js_get (objects (snd (update 0 (0 + 1000) started)) 0) ''x'' = Num 10"
    using update_scalar_property[of started 0 0 1000 1000 0 "''x''" 0 10 1]
    by (simp add: started_facts Linear_None_def js_get_def)
  have c: "js_get (objects (snd (interpolate 0 (0 + 1000) started_loop)) 0) ''x'' = Num 10 \<and>
      js_get (objects (snd (update 0 (0 + 1000) started_loop)) 0) ''x'' = Num 0"
    using update_scalar_property[of started_loop 0 0 1000 1000 0 "''x''" 0 10 1]
    by (simp add: started_loop_def tween_loop_def upd_tween_def started_facts Linear_None_def js_get_def)
  from a b c show ?thesis by blast
qed

text \<open>
  The claim C1 speaks of every started tween. A paused tween is one, and its
  \<^verbatim>\<open>update\<close> returns at the first test: \<open>x\<close> stays at 0 where the claim computes
  \<open>0 + (10 - 0) * (250 / 1000)\<close>. A looping tween is another: at \<open>e = d\<close> the target
  is back at 0 when \<^verbatim>\<open>update\<close> returns, where the claim computes \<open>0 + (10 - 0) * 1\<close>.
\<close>

theorem update_paused_or_looping_target:
  "startTime (tweens started_paused 0) = Some 0 \<and>
   duration (tweens started_paused 0) = 1000 \<and>
   valuesStart (tweens started_paused 0) = [(''x'', Num 0)] \<and>
   valuesEnd (tweens started_paused 0) = [(''x'', Num 10)] \<and>
   easingFunction (tweens started_paused 0) (Num (250 / 1000)) = Num (1 / 4) \<and>
   update 0 (0 + 250) started_paused = (Return True, started_paused) \<and>
   js_get (objects (snd (update 0 (0 + 250) started_paused)) 0) ''x'' = Num 0 \<and>
   js_get (objects (snd (update 0 (0 + 250) started_paused)) 0) ''x'' \<noteq> Num (0 + (10 - 0) * (1 / 4)) \<and>
   startTime (tweens started_loop 0) = Some 0 \<and>
   duration (tweens started_loop 0) = 1000 \<and>
   valuesStart (tweens started_loop 0) = [(''x'', Num 0)] \<and>
   valuesEnd (tweens started_loop 0) = [(''x'', Num 10)] \<and>
   easingFunction (tweens started_loop 0) (Num (1000 / 1000)) = Num 1 \<and>
   js_get (objects (snd (update 0 (0 + 1000) started_loop)) 0) ''x'' = Num 0 \<and>
   js_get (objects (snd (update 0 (0 + 1000) started_loop)) 0) ''x'' \<noteq> Num (0 + (10 - 0) * 1)"
proof -
  have "startTime (tweens started_paused 0) = Some 0 \<and>
   duration (tweens started_paused 0) = 1000 \<and>
   valuesStart (tweens started_paused 0) = [(''x'', Num 0)] \<and>
   valuesEnd (tweens started_paused 0) = [(''x'', Num 10)] \<and>
   easingFunction (tweens started_paused 0) (Num (250 / 1000)) = Num (1 / 4) \<and>
   update 0 (0 + 250) started_paused = (Return True, started_paused) \<and>
   js_get (objects (snd (update 0 (0 + 250) started_paused)) 0) ''x'' = Num 0 \<and>
   js_get (objects (snd (update 0 (0 + 250) started_paused)) 0) ''x'' \<noteq> Num (0 + (10 - 0) * (1 / 4))"
    by (simp add: started_paused_def pause_def upd_tween_def started_facts update_def
        Linear_None_def js_get_def)
  moreover have "startTime (tweens started_loop 0) = Some 0 \<and>
   duration (tweens started_loop 0) = 1000 \<and>
   valuesStart (tweens started_loop 0) = [(''x'', Num 0)] \<and>
   valuesEnd (tweens started_loop 0) = [(''x'', Num 10)] \<and>
   easingFunction (tweens started_loop 0) (Num (1000 / 1000)) = Num 1"
    by (simp add: started_loop_def tween_loop_def upd_tween_def started_facts Linear_None_def)
  moreover have l: "js_get (objects (snd (update 0 (0 + 1000) started_loop)) 0) ''x'' = Num 0"
    by (simp add: started_loop_def tween_loop_def started_def demo_def tween_to_def start_def
        upd_tween_def new_tween_def update_def interpolate_def write_target_def finish_def
        reset_def keep_alive_def elapsed_def startTime_num_def blend_def Linear_None_def
        js_add_def js_sub_def js_mul_def
        dispatch_def capture_def js_get_def js_in_def bad_key_def start_prop_def Let_def)
  moreover have "js_get (objects (snd (update 0 (0 + 1000) started_loop)) 0) ''x'' \<noteq> Num (0 + (10 - 0) * 1)"
    unfolding l by simp
  ultimately show ?thesis by blast
qed

section \<open>Completion\<close>

lemma reverse_props_fields:
  "reverse_props ps t = t\<lparr>valuesStart := valuesStart (reverse_props ps t),
                          valuesEnd := valuesEnd (reverse_props ps t)\<rparr>"
proof (induction ps arbitrary: t)
  case Nil
  show ?case by simp
next
  case (Cons p ps)
  let ?t1 = "t\<lparr>valuesStart := js_set p (js_get (valuesEnd t) p) (valuesStart t),
                valuesEnd := js_set p (js_get (valuesStart t) p) (valuesEnd t)\<rparr>"
  have "reverse_props ps ?t1 = ?t1\<lparr>valuesStart := valuesStart (reverse_props ps ?t1),
                          valuesEnd := valuesEnd (reverse_props ps ?t1)\<rparr>"
    by (rule Cons.IH)
  then show ?case by (cases t) simp
qed

lemma reverse_props_running: "isRunning (reverse_props ps t) = isRunning t"
  by (subst reverse_props_fields) simp

lemma reverse_props_yoyoCount: "yoyoCount (reverse_props ps t) = yoyoCount t"
  by (subst reverse_props_fields) simp

lemma reverse_running_mono:
  "isRunning (tweens w x) \<Longrightarrow> isRunning (tweens (snd (reverse tid w)) x)"
  by (auto simp: reverse_def Let_def start_running reverse_props_running)

lemma reset_running_mono:
  "isRunning (tweens w x) \<Longrightarrow> isRunning (tweens (snd (reset tid w)) x)"
proof -
  assume r: "isRunning (tweens w x)"
  obtain e w1 where wt: "write_target tid reset_props w = (e, w1)" by (meson surj_pair)
  have "tweens w1 = tweens w"
    using write_target_tweens[of tid reset_props w] wt by simp
  then show ?thesis
    using r by (cases e) (simp_all add: reset_def wt start_running)
qed

lemma complete_running_mono:
  "isRunning (tweens w x) \<Longrightarrow> isRunning (tweens (snd (complete tid w)) x)"
  by (simp add: complete_def Let_def start_chained_running_mono dispatch_def)

lemma complete_chainedTweens:
  "chainedTweens (tweens (snd (complete tid w)) x) = chainedTweens (tweens w x)"
  using start_touches_fields[OF start_chained_touches[of "dispatch (OnComplete tid (object (tweens w tid))) w" x
          "chainedTweens (tweens w tid)"]]
  by (simp add: complete_def Let_def dispatch_def)

lemma finish_clears_running:
  assumes "isRunning (tweens w x)" and "\<not> isRunning (tweens (snd (finish tid w)) x)"
  shows "x = tid \<and> \<not> yoyo (tweens w tid) \<and> \<not> loop (tweens w tid) \<and>
         chainedTweens (tweens w tid) = [] \<and> fst (finish tid w) = Return False"
proof -
  let ?w0 = "upd_tween tid (\<lambda>t. t\<lparr>yoyoCount := 0\<rparr>) w"
  have r0: "isRunning (tweens ?w0 x)"
    using assms(1) by (auto simp: upd_tween_def)
  obtain e w1 where c: "complete tid w = (e, w1)" by (meson surj_pair)
  have r1: "isRunning (tweens w1 x)"
    using complete_running_mono[OF assms(1), of tid] c by simp
  have ch: "chainedTweens (tweens w1 tid) = chainedTweens (tweens w tid)"
    using complete_chainedTweens[of tid w tid] c by simp
  show ?thesis
  proof (cases "yoyo (tweens w tid)")
    case True
    then have "isRunning (tweens (snd (finish tid w)) x)"
      using reverse_running_mono[OF assms(1), of tid] reverse_running_mono[OF r0, of tid] r1
      by (cases e) (simp_all add: finish_def Let_def snd_keep_alive c)
    with assms(2) show ?thesis by simp
  next
    case ny: False
    show ?thesis
    proof (cases "loop (tweens w tid)")
      case True
      then have "isRunning (tweens (snd (finish tid w)) x)"
        using ny reset_running_mono[OF r0, of tid]
        by (simp add: finish_def Let_def snd_keep_alive)
      with assms(2) show ?thesis by simp
    next
      case nl: False
      show ?thesis
      proof (cases e)
        case (Some err)
        then have "isRunning (tweens (snd (finish tid w)) x)"
          using ny nl r1 by (simp add: finish_def Let_def c)
        with assms(2) show ?thesis by simp
      next
        case None
        then have f: "finish tid w =
            (Return False, if chainedTweens (tweens w tid) = []
                           then upd_tween tid (\<lambda>t. t\<lparr>isRunning := False\<rparr>) w1 else w1)"
          using ny nl by (simp add: finish_def Let_def c ch)
        show ?thesis
          using assms(2) r1 ny nl unfolding f
          by (auto simp: upd_tween_def split: if_splits)
      qed
    qed
  qed
qed

lemma interpolate_tweens:
  "tweens (snd (interpolate tid time w)) =
     (tweens w)(tid := (tweens w tid)
        \<lparr>tempElapsed := elapsed time (startTime_num (tweens w tid)) (duration (tweens w tid)),
         tempValue := easingFunction (tweens w tid)
            (elapsed time (startTime_num (tweens w tid)) (duration (tweens w tid)))\<rparr>)"
  by (simp add: interpolate_def Let_def write_target_tweens upd_tween_def)

lemma interpolate_signals:
  "signals (snd (interpolate tid time w)) = signals w \<and>
   manager (snd (interpolate tid time w)) = manager w \<and>
   time_now (snd (interpolate tid time w)) = time_now w"
  by (simp add: interpolate_def Let_def write_target_signals upd_tween_def)

lemma update_clears_running:
  assumes "isRunning (tweens w x)" and "\<not> isRunning (tweens (snd (update tid time w)) x)"
  shows "x = tid \<and> \<not> yoyo (tweens w tid) \<and> \<not> loop (tweens w tid) \<and>
         chainedTweens (tweens w tid) = [] \<and> fst (update tid time w) = Return False"
proof -
  obtain e w2 where ip: "interpolate tid time w = (e, w2)" by (meson surj_pair)
  define w3 where "w3 = dispatch (OnUpdate tid (object (tweens w2 tid)) (tempValue (tweens w2 tid))) w2"
  have t2: "tweens w2 = (tweens w)(tid := (tweens w tid)
        \<lparr>tempElapsed := elapsed time (startTime_num (tweens w tid)) (duration (tweens w tid)),
         tempValue := easingFunction (tweens w tid)
            (elapsed time (startTime_num (tweens w tid)) (duration (tweens w tid)))\<rparr>)"
    using interpolate_tweens[of tid time w] ip by simp
  have r2: "isRunning (tweens w2 x)" and r3: "isRunning (tweens w3 x)"
    using assms(1) by (auto simp: t2 w3_def dispatch_def)
  have same: "yoyo (tweens w3 tid) = yoyo (tweens w tid)" "loop (tweens w3 tid) = loop (tweens w tid)"
    "chainedTweens (tweens w3 tid) = chainedTweens (tweens w tid)"
    by (simp_all add: t2 w3_def dispatch_def)
  have "update tid time w = finish tid w3"
  proof (rule ccontr)
    assume ne: "update tid time w \<noteq> finish tid w3"
    have "isRunning (tweens (snd (update tid time w)) x)"
    proof (cases "paused (tweens w tid) \<or> time < startTime_num (tweens w tid)")
      case True
      then show ?thesis using assms(1) by (auto simp: update_def)
    next
      case False
      show ?thesis
      proof (cases e)
        case (Some err)
        then show ?thesis using False r2 by (simp add: update_def ip)
      next
        case None
        then show ?thesis
          using False r3 ne by (auto simp: update_def ip Let_def w3_def split: if_splits)
      qed
    qed
    with assms(2) show False by simp
  qed
  with finish_clears_running[OF r3, of tid] assms(2) same show ?thesis by simp
qed

section \<open>The two completion branches\<close>

lemma start_chained_startTime:
  "\<not> list_ex (start_raises w) cs \<Longrightarrow> c \<in> set cs \<Longrightarrow> startable w c \<Longrightarrow>
     startTime (tweens (snd (start_chained cs w)) c) = Some (time_now w + delayTime (tweens w c))"
proof (induction cs arbitrary: w)
  case Nil
  then show ?case by simp
next
  case (Cons d ds)
  let ?w1 = "snd (start False d w)"
  from Cons.prems(1) have nr: "\<not> start_raises w d" and rest: "\<not> list_ex (start_raises ?w1) ds"
    by (simp_all add: list_ex_start_raises_start)
  have eq: "start_chained (d # ds) w = start_chained ds ?w1"
    using nr by (simp add: start_chained_Cons del: start_chained.simps(2))
  show ?case
  proof (cases "c \<in> set ds")
    case True
    have "startable ?w1 c" using Cons.prems(3) by (simp add: start_startable)
    from Cons.IH[OF rest True this] show ?thesis
      unfolding eq by (simp add: start_time_now start_delayTime)
  next
    case False
    with Cons.prems(2) have "c = d" by simp
    then show ?thesis
      unfolding eq using False Cons.prems(3) by (simp add: start_chained_other start_startTime)
  qed
qed

lemma start_raises_cong:
  "tweens w' = tweens w \<Longrightarrow> objects w' = objects w \<Longrightarrow> start_raises w' = start_raises w"
  by (auto simp: start_raises_def fun_eq_iff split: option.splits)

lemma complete_effects:
  assumes "\<not> list_ex (start_raises w) (chainedTweens (tweens w tid))"
  shows "fst (complete tid w) = None \<and>
         signals (snd (complete tid w)) =
           signals w @ OnComplete tid (object (tweens w tid)) #
             map (\<lambda>c. OnStart c (object (tweens w c))) (filter (startable w) (chainedTweens (tweens w tid))) \<and>
         manager (snd (complete tid w)) = manager w @ filter (startable w) (chainedTweens (tweens w tid)) \<and>
         (\<forall>c \<in> set (chainedTweens (tweens w tid)). startable w c \<longrightarrow>
            isRunning (tweens (snd (complete tid w)) c) \<and>
            startTime (tweens (snd (complete tid w)) c) = Some (time_now w + delayTime (tweens w c))) \<and>
         (\<forall>x. isRunning (tweens (snd (complete tid w)) x) =
            (isRunning (tweens w x) \<or> (x \<in> set (chainedTweens (tweens w tid)) \<and> startable w x)))"
proof -
  define w1 where "w1 = dispatch (OnComplete tid (object (tweens w tid))) w"
  have t1: "tweens w1 = tweens w" and o1: "objects w1 = objects w" and m1: "manager w1 = manager w"
    and s1: "signals w1 = signals w @ [OnComplete tid (object (tweens w tid))]"
    and n1: "time_now w1 = time_now w"
    by (simp_all add: w1_def dispatch_def)
  have sr: "start_raises w1 = start_raises w" and sa: "startable w1 = startable w"
    by (simp_all add: start_raises_cong[OF t1 o1] fun_eq_iff startable_def t1)
  have c: "complete tid w = start_chained (chainedTweens (tweens w tid)) w1"
    by (simp add: complete_def Let_def w1_def[symmetric] t1)
  have nr: "\<not> list_ex (start_raises w1) (chainedTweens (tweens w tid))"
    using assms by (simp add: sr)
  from start_chained_effects[OF nr] start_chained_startTime[OF nr]
  show ?thesis
    unfolding c by (simp add: t1 m1 s1 n1 sa)
qed

lemma update_at_end:
  assumes "\<not> paused (tweens w tid)" and "startTime_num (tweens w tid) \<le> time"
    and "elapsed time (startTime_num (tweens w tid)) (duration (tweens w tid)) = Num 1"
    and "fst (interpolate tid time w) = None"
  shows "update tid time w =
           finish tid (dispatch (OnUpdate tid (object (tweens w tid)) (easingFunction (tweens w tid) (Num 1)))
                         (snd (interpolate tid time w)))"
proof -
  have ip: "interpolate tid time w = (None, snd (interpolate tid time w))"
    using assms(4) by (metis prod.collapse)
  have t2: "tweens (snd (interpolate tid time w)) tid =
      (tweens w tid)\<lparr>tempElapsed := Num 1, tempValue := easingFunction (tweens w tid) (Num 1)\<rparr>"
    by (simp add: interpolate_tweens assms(3))
  show ?thesis
    using update_live[OF assms(1,2) ip] by (simp add: t2)
qed

text \<open>The state in which \<^verbatim>\<open>update\<close> enters its completion branches, seen from the state
  before the call.\<close>

lemma at_end_state:
  fixes w tid time
  defines "w3 \<equiv> dispatch (OnUpdate tid (object (tweens w tid)) (easingFunction (tweens w tid) (Num 1)))
                         (snd (interpolate tid time w))"
  assumes "elapsed time (startTime_num (tweens w tid)) (duration (tweens w tid)) = Num 1"
  shows "signals w3 = signals w @ [OnUpdate tid (object (tweens w tid)) (easingFunction (tweens w tid) (Num 1))]"
    and "manager w3 = manager w" and "time_now w3 = time_now w"
    and "tweens w3 x = (if x = tid
            then (tweens w tid)\<lparr>tempElapsed := Num 1, tempValue := easingFunction (tweens w tid) (Num 1)\<rparr>
            else tweens w x)"
    and "startable w3 = startable w"
    and "start_raises w3 = start_raises (snd (interpolate tid time w))"
proof -
  show 1: "signals w3 = signals w @ [OnUpdate tid (object (tweens w tid)) (easingFunction (tweens w tid) (Num 1))]"
    and 2: "manager w3 = manager w" and 3: "time_now w3 = time_now w"
    by (simp_all add: w3_def dispatch_def interpolate_signals)
  show 4: "tweens w3 x = (if x = tid
            then (tweens w tid)\<lparr>tempElapsed := Num 1, tempValue := easingFunction (tweens w tid) (Num 1)\<rparr>
            else tweens w x)"
    by (simp add: w3_def dispatch_def interpolate_tweens assms(2))
  have "\<And>y. tweens w3 y = (if y = tid
            then (tweens w tid)\<lparr>tempElapsed := Num 1, tempValue := easingFunction (tweens w tid) (Num 1)\<rparr>
            else tweens w y)"
    by (simp add: w3_def dispatch_def interpolate_tweens assms(2))
  then show "startable w3 = startable w"
    by (auto simp: fun_eq_iff startable_def)
  show "start_raises w3 = start_raises (snd (interpolate tid time w))"
    by (rule start_raises_cong) (simp_all add: w3_def dispatch_def)
qed

lemma completion_branch:
  fixes w tid time
  defines "t \<equiv> tweens w tid"
  defines "w3 \<equiv> dispatch (OnUpdate tid (object (tweens w tid)) (easingFunction (tweens w tid) (Num 1)))
                         (snd (interpolate tid time w))"
  assumes el: "elapsed time (startTime_num t) (duration t) = Num 1"
    and nr: "\<not> list_ex (start_raises (snd (interpolate tid time w))) (chainedTweens t)"
  shows "fst (complete tid w3) = None"
    and "signals (snd (complete tid w3)) =
           signals w @ [OnUpdate tid (object t) (easingFunction t (Num 1)), OnComplete tid (object t)] @
             map (\<lambda>c. OnStart c (object (tweens w c))) (filter (startable w) (chainedTweens t))"
    and "manager (snd (complete tid w3)) = manager w @ filter (startable w) (chainedTweens t)"
    and "\<forall>c \<in> set (chainedTweens t). startable w c \<longrightarrow>
            isRunning (tweens (snd (complete tid w3)) c) \<and>
            startTime (tweens (snd (complete tid w3)) c) = Some (time_now w + delayTime (tweens w c))"
    and "isRunning (tweens (snd (complete tid w3)) tid) =
            (isRunning t \<or> (tid \<in> set (chainedTweens t) \<and> startable w tid))"
    and "chainedTweens (tweens (snd (complete tid w3)) tid) = chainedTweens t"
proof -
  note st = at_end_state[OF el[unfolded t_def], folded w3_def]
  have ob: "object (tweens w3 x) = object (tweens w x)" for x
    by (simp add: st(4))
  have dl: "delayTime (tweens w3 x) = delayTime (tweens w x)" for x
    by (simp add: st(4))
  have rn: "isRunning (tweens w3 x) = isRunning (tweens w x)" for x
    by (simp add: st(4))
  have ch: "chainedTweens (tweens w3 tid) = chainedTweens t"
    by (simp add: st(4) t_def)
  have "\<not> list_ex (start_raises w3) (chainedTweens (tweens w3 tid))"
    using nr by (simp add: st(6) ch)
  note ce = complete_effects[OF this, unfolded ch st(5) st(1) st(2) st(3) ob dl rn]
  from ce show "fst (complete tid w3) = None" by blast
  from ce show "signals (snd (complete tid w3)) =
           signals w @ [OnUpdate tid (object t) (easingFunction t (Num 1)), OnComplete tid (object t)] @
             map (\<lambda>c. OnStart c (object (tweens w c))) (filter (startable w) (chainedTweens t))"
    by (simp add: t_def)
  from ce show "manager (snd (complete tid w3)) = manager w @ filter (startable w) (chainedTweens t)"
    by blast
  from ce show "\<forall>c \<in> set (chainedTweens t). startable w c \<longrightarrow>
            isRunning (tweens (snd (complete tid w3)) c) \<and>
            startTime (tweens (snd (complete tid w3)) c) = Some (time_now w + delayTime (tweens w c))"
    by blast
  from ce show "isRunning (tweens (snd (complete tid w3)) tid) =
            (isRunning t \<or> (tid \<in> set (chainedTweens t) \<and> startable w tid))"
    unfolding t_def by blast
  show "chainedTweens (tweens (snd (complete tid w3)) tid) = chainedTweens t"
    by (simp add: complete_chainedTweens ch)
qed

text \<open>
  C2. When \<^verbatim>\<open>update\<close> reaches a clamped elapsed value of 1 on a running tween with
  \<^verbatim>\<open>yoyo\<close> and \<^verbatim>\<open>loop\<close> both false (the interpolation step and the chained starts not
  raising), it dispatches the update and then the completion notification, then starts
  the chained tweens in the order of the list (each one that has a game and a target is
  added to the manager, signals its start and is running with its start time set),
  leaves \<^verbatim>\<open>isRunning\<close> true exactly when the chain is not empty, and returns false.
\<close>

theorem update_plain_completion:
  assumes "\<not> paused (tweens w tid)"
    and "startTime_num (tweens w tid) \<le> time"
    and "elapsed time (startTime_num (tweens w tid)) (duration (tweens w tid)) = Num 1"
    and "\<not> yoyo (tweens w tid)" and "\<not> loop (tweens w tid)"
    and "isRunning (tweens w tid)"
    and "fst (interpolate tid time w) = None"
    and "\<not> list_ex (start_raises (snd (interpolate tid time w))) (chainedTweens (tweens w tid))"
  shows "fst (update tid time w) = Return False \<and>
         signals (snd (update tid time w)) =
           signals w @
             [OnUpdate tid (object (tweens w tid)) (easingFunction (tweens w tid) (Num 1)),
              OnComplete tid (object (tweens w tid))] @
             map (\<lambda>c. OnStart c (object (tweens w c)))
               (filter (startable w) (chainedTweens (tweens w tid))) \<and>
         manager (snd (update tid time w)) =
           manager w @ filter (startable w) (chainedTweens (tweens w tid)) \<and>
         (\<forall>c \<in> set (chainedTweens (tweens w tid)). startable w c \<longrightarrow>
            isRunning (tweens (snd (update tid time w)) c) \<and>
            startTime (tweens (snd (update tid time w)) c) =
              Some (time_now w + delayTime (tweens w c))) \<and>
         isRunning (tweens (snd (update tid time w)) tid) = (chainedTweens (tweens w tid) \<noteq> [])"
proof -
  define w3 where "w3 = dispatch (OnUpdate tid (object (tweens w tid)) (easingFunction (tweens w tid) (Num 1)))
                         (snd (interpolate tid time w))"
  define w4 where "w4 = snd (complete tid w3)"
  note cb = completion_branch[OF assms(3) assms(8), folded w3_def, folded w4_def]
  note st = at_end_state[OF assms(3), folded w3_def]
  have c: "complete tid w3 = (None, w4)"
    using cb(1) by (simp add: w4_def prod_eq_iff)
  have flags: "\<not> yoyo (tweens w3 tid)" "\<not> loop (tweens w3 tid)"
    using assms(4,5) by (simp_all add: st(4))
  have up: "update tid time w =
      (Return False, if chainedTweens (tweens w tid) = []
                     then upd_tween tid (\<lambda>t. t\<lparr>isRunning := False\<rparr>) w4 else w4)"
    using update_at_end[OF assms(1,2,3,7), folded w3_def] flags
    by (simp add: finish_def Let_def c cb(6))
  show ?thesis
  proof (cases "chainedTweens (tweens w tid) = []")
    case True
    with cb(2,3) show ?thesis
      by (simp add: up upd_tween_def)
  next
    case False
    with cb(2,3,4,5) assms(6) show ?thesis
      by (simp add: up)
  qed
qed

lemma started_chain_facts:
  "paused (tweens started_chain 0) = False" "startTime_num (tweens started_chain 0) = 0"
  "duration (tweens started_chain 0) = 1000"
  "yoyo (tweens started_chain 0) = False" "loop (tweens started_chain 0) = False"
  "isRunning (tweens started_chain 0) = True" "chainedTweens (tweens started_chain 0) = [2]"
  "object (tweens started_chain 0) = Some 0" "easingFunction (tweens started_chain 0) = Linear_None"
  "signals started_chain = [OnStart 0 (Some 0)]" "manager started_chain = [0]"
  "tweens started_chain 2 = new_tween (Some 0) Linear_None end_keyframe"
  "time_now started_chain = 0"
  by (simp_all add: started_chain_def chain_tween_def upd_tween_def started_facts startTime_num_def,
      simp_all add: started_def demo_def tween_to_def start_def upd_tween_def new_tween_def
        dispatch_def capture_def js_get_def js_in_def bad_key_def start_prop_def Let_def)

theorem update_plain_completion_witness:
  "fst (update 0 1000 started_chain) = Return False \<and>
   signals (snd (update 0 1000 started_chain)) =
     [OnStart 0 (Some 0), OnUpdate 0 (Some 0) (Num 1), OnComplete 0 (Some 0), OnStart 2 (Some 0)] \<and>
   manager (snd (update 0 1000 started_chain)) = [0, 2] \<and>
   isRunning (tweens (snd (update 0 1000 started_chain)) 2) = True \<and>
   startTime (tweens (snd (update 0 1000 started_chain)) 2) = Some 0 \<and>
   isRunning (tweens (snd (update 0 1000 started_chain)) 0) = True \<and>
   fst (update 0 1000 started) = Return False \<and>
   isRunning (tweens (snd (update 0 1000 started)) 0) = False"
proof -
  have a: "fst (interpolate 0 1000 started_chain) = None"
    "\<not> list_ex (start_raises (snd (interpolate 0 1000 started_chain))) (chainedTweens (tweens started_chain 0))"
    "fst (interpolate 0 1000 started) = None"
    "\<not> list_ex (start_raises (snd (interpolate 0 1000 started))) (chainedTweens (tweens started 0))"
    by (simp_all add: interpolate_bound started_chain_facts started_facts start_raises_def new_tween_def)
  have e: "elapsed 1000 0 1000 = Num 1" by (simp add: elapsed_def)
  have s1: "startable started_chain 2"
    by (simp add: startable_def started_chain_facts new_tween_def)
  have b: "startTime_num (tweens started 0) = 0" by (simp add: startTime_num_def started_facts)
  from update_plain_completion[of started_chain 0 1000] a(1,2) e s1
  have 1: "fst (update 0 1000 started_chain) = Return False \<and>
   signals (snd (update 0 1000 started_chain)) =
     [OnStart 0 (Some 0), OnUpdate 0 (Some 0) (Num 1), OnComplete 0 (Some 0), OnStart 2 (Some 0)] \<and>
   manager (snd (update 0 1000 started_chain)) = [0, 2] \<and>
   isRunning (tweens (snd (update 0 1000 started_chain)) 2) = True \<and>
   startTime (tweens (snd (update 0 1000 started_chain)) 2) = Some 0 \<and>
   isRunning (tweens (snd (update 0 1000 started_chain)) 0) = True"
    by (simp add: started_chain_facts Linear_None_def new_tween_def)
  from update_plain_completion[of started 0 1000] a(3,4) e b
  have 2: "fst (update 0 1000 started) = Return False \<and>
   isRunning (tweens (snd (update 0 1000 started)) 0) = False"
    by (simp add: started_facts)
  from 1 2 show ?thesis by blast
qed

text \<open>
  C10. When \<^verbatim>\<open>update\<close> reaches a clamped elapsed value of 1 on a running yoyo tween
  whose reversed leg it was (\<^verbatim>\<open>_yoyoCount\<close> not 0) and that does not loop, it dispatches the
  completion notification, starts the chained tweens in order and returns false, and
  \<^verbatim>\<open>isRunning\<close> is still true, also with an empty chain. Moreover no call of
  \<^verbatim>\<open>update\<close> turns the \<^verbatim>\<open>isRunning\<close> of any tween from true to false except the
  completion of a tween that is neither yoyo nor looping and has an empty chain.
\<close>

theorem update_yoyo_completion:
  assumes "\<not> paused (tweens w tid)"
    and "startTime_num (tweens w tid) \<le> time"
    and "elapsed time (startTime_num (tweens w tid)) (duration (tweens w tid)) = Num 1"
    and "yoyo (tweens w tid)" and "yoyoCount (tweens w tid) \<noteq> 0" and "\<not> loop (tweens w tid)"
    and "isRunning (tweens w tid)"
    and "fst (interpolate tid time w) = None"
    and "\<not> list_ex (start_raises (snd (interpolate tid time w))) (chainedTweens (tweens w tid))"
  shows "fst (update tid time w) = Return False \<and>
         signals (snd (update tid time w)) =
           signals w @
             [OnUpdate tid (object (tweens w tid)) (easingFunction (tweens w tid) (Num 1)),
              OnComplete tid (object (tweens w tid))] @
             map (\<lambda>c. OnStart c (object (tweens w c)))
               (filter (startable w) (chainedTweens (tweens w tid))) \<and>
         manager (snd (update tid time w)) =
           manager w @ filter (startable w) (chainedTweens (tweens w tid)) \<and>
         (\<forall>c \<in> set (chainedTweens (tweens w tid)). startable w c \<longrightarrow>
            isRunning (tweens (snd (update tid time w)) c) \<and>
            startTime (tweens (snd (update tid time w)) c) =
              Some (time_now w + delayTime (tweens w c))) \<and>
         isRunning (tweens (snd (update tid time w)) tid) \<and>
         (\<forall>u k tm x.
            isRunning (tweens u x) \<and> \<not> isRunning (tweens (snd (update k tm u)) x) \<longrightarrow>
              x = k \<and> \<not> yoyo (tweens u k) \<and> \<not> loop (tweens u k) \<and>
              chainedTweens (tweens u k) = [] \<and> fst (update k tm u) = Return False)"
proof -
  define w3 where "w3 = dispatch (OnUpdate tid (object (tweens w tid)) (easingFunction (tweens w tid) (Num 1)))
                         (snd (interpolate tid time w))"
  define w4 where "w4 = snd (complete tid w3)"
  note cb = completion_branch[OF assms(3) assms(9), folded w3_def, folded w4_def]
  note st = at_end_state[OF assms(3), folded w3_def]
  have c: "complete tid w3 = (None, w4)"
    using cb(1) by (simp add: w4_def prod_eq_iff)
  have flags: "yoyo (tweens w3 tid)" "yoyoCount (tweens w3 tid) \<noteq> 0" "\<not> loop (tweens w3 tid)"
    using assms(4,5,6) by (simp_all add: st(4))
  have up: "update tid time w = (Return False, w4)"
    using update_at_end[OF assms(1,2,3,8), folded w3_def] flags
    by (simp add: finish_def Let_def c)
  have only: "\<forall>u k tm x.
            isRunning (tweens u x) \<and> \<not> isRunning (tweens (snd (update k tm u)) x) \<longrightarrow>
              x = k \<and> \<not> yoyo (tweens u k) \<and> \<not> loop (tweens u k) \<and>
              chainedTweens (tweens u k) = [] \<and> fst (update k tm u) = Return False"
    using update_clears_running by blast
  from cb(2,3,4,5) assms(7) only show ?thesis
    unfolding up by simp
qed

lemma yoyo_back_facts:
  "paused (tweens yoyo_back 0) = False" "startTime_num (tweens yoyo_back 0) = 0"
  "duration (tweens yoyo_back 0) = 1000"
  "yoyo (tweens yoyo_back 0) = True" "yoyoCount (tweens yoyo_back 0) = 1"
  "loop (tweens yoyo_back 0) = False"
  "isRunning (tweens yoyo_back 0) = True" "chainedTweens (tweens yoyo_back 0) = []"
  "object (tweens yoyo_back 0) = Some 0" "easingFunction (tweens yoyo_back 0) = Linear_None"
  "signals yoyo_back = [OnStart 0 (Some 0), OnUpdate 0 (Some 0) (Num 1)]" "manager yoyo_back = [0]"
  "valuesStart (tweens yoyo_back 0) = [(''x'', Num 10)]"
  "valuesEnd (tweens yoyo_back 0) = [(''x'', Num 0)]"
  "objects yoyo_back 0 = [(''x'', Num 10), (''y'', Num 5)]"
  by (simp_all add: yoyo_back_def started_yoyo_def demo_def tween_to_def start_def upd_tween_def
        new_tween_def update_def interpolate_def write_target_def finish_def reverse_def
        keep_alive_def elapsed_def startTime_num_def blend_def Linear_None_def
        js_add_def js_sub_def js_mul_def
        dispatch_def capture_def js_get_def js_in_def bad_key_def start_prop_def Let_def)

theorem update_yoyo_completion_witness:
  "fst (update 0 1000 yoyo_back) = Return False \<and>
   signals (snd (update 0 1000 yoyo_back)) =
     [OnStart 0 (Some 0), OnUpdate 0 (Some 0) (Num 1), OnUpdate 0 (Some 0) (Num 1), OnComplete 0 (Some 0)] \<and>
   manager (snd (update 0 1000 yoyo_back)) = [0] \<and>
   chainedTweens (tweens yoyo_back 0) = [] \<and>
   isRunning (tweens (snd (update 0 1000 yoyo_back)) 0) = True"
proof -
  have a: "fst (interpolate 0 1000 yoyo_back) = None"
    "\<not> list_ex (start_raises (snd (interpolate 0 1000 yoyo_back))) (chainedTweens (tweens yoyo_back 0))"
    by (simp_all add: interpolate_bound yoyo_back_facts)
  have e: "elapsed 1000 0 1000 = Num 1" by (simp add: elapsed_def)
  from update_yoyo_completion[of yoyo_back 0 1000] a e
  have "fst (update 0 1000 yoyo_back) = Return False"
    and "signals (snd (update 0 1000 yoyo_back)) =
     [OnStart 0 (Some 0), OnUpdate 0 (Some 0) (Num 1), OnUpdate 0 (Some 0) (Num 1), OnComplete 0 (Some 0)]"
    and "manager (snd (update 0 1000 yoyo_back)) = [0]"
    and "isRunning (tweens (snd (update 0 1000 yoyo_back)) 0) = True"
    by (simp_all add: yoyo_back_facts Linear_None_def)
  then show ?thesis by (simp add: yoyo_back_facts)
qed

section \<open>The yoyo counter\<close>

lemma start_yoyoCount: "yoyoCount (tweens (snd (start l c w)) x) = yoyoCount (tweens w x)"
  using start_touches_fields[OF start_touches_any[of w x l c]] by simp

lemma reverse_yoyoCount:
  "yoyoCount (tweens (snd (reverse tid w)) x) =
     (if x = tid then yoyoCount (tweens w tid) + 1 else yoyoCount (tweens w x))"
  by (simp add: reverse_def Let_def start_yoyoCount reverse_props_yoyoCount)

lemma reset_yoyoCount: "yoyoCount (tweens (snd (reset tid w)) x) = yoyoCount (tweens w x)"
proof -
  obtain e w1 where wt: "write_target tid reset_props w = (e, w1)" by (meson surj_pair)
  have "tweens w1 = tweens w"
    using write_target_tweens[of tid reset_props w] wt by simp
  then show ?thesis
    by (cases e) (simp_all add: reset_def wt start_yoyoCount)
qed

lemma complete_yoyoCount: "yoyoCount (tweens (snd (complete tid w)) x) = yoyoCount (tweens w x)"
  using start_touches_fields[OF start_chained_touches[of "dispatch (OnComplete tid (object (tweens w tid))) w" x
          "chainedTweens (tweens w tid)"]]
  by (simp add: complete_def Let_def dispatch_def)

lemma finish_yoyoCount:
  "yoyoCount (tweens (snd (finish tid w)) x) =
     (if x \<noteq> tid then yoyoCount (tweens w x)
      else if yoyo (tweens w tid) then
        (if yoyoCount (tweens w tid) = 0 then 1
         else if \<not> loop (tweens w tid) then yoyoCount (tweens w tid) else 1)
      else if loop (tweens w tid) then 0 else yoyoCount (tweens w tid))"
proof -
  obtain e w1 where c: "complete tid w = (e, w1)" by (meson surj_pair)
  have y1: "yoyoCount (tweens w1 y) = yoyoCount (tweens w y)" for y
    using complete_yoyoCount[of tid w y] c by simp
  show ?thesis
    by (cases e)
       (auto simp: finish_def Let_def snd_keep_alive reverse_yoyoCount reset_yoyoCount c y1 upd_tween_def)
qed

lemma update_yoyoCount:
  "yoyoCount (tweens (snd (update tid time w)) x) =
     (if paused (tweens w tid) \<or> time < startTime_num (tweens w tid) \<or>
         fst (interpolate tid time w) \<noteq> None \<or>
         elapsed time (startTime_num (tweens w tid)) (duration (tweens w tid)) \<noteq> Num 1 \<or> x \<noteq> tid
      then yoyoCount (tweens w x)
      else if yoyo (tweens w tid) then
        (if yoyoCount (tweens w tid) = 0 then 1
         else if \<not> loop (tweens w tid) then yoyoCount (tweens w tid) else 1)
      else if loop (tweens w tid) then 0 else yoyoCount (tweens w tid))"
proof -
  obtain e w2 where ip: "interpolate tid time w = (e, w2)" by (meson surj_pair)
  define w3 where "w3 = dispatch (OnUpdate tid (object (tweens w2 tid)) (tempValue (tweens w2 tid))) w2"
  have t3: "tweens w3 = (tweens w)(tid := (tweens w tid)
        \<lparr>tempElapsed := elapsed time (startTime_num (tweens w tid)) (duration (tweens w tid)),
         tempValue := easingFunction (tweens w tid)
            (elapsed time (startTime_num (tweens w tid)) (duration (tweens w tid)))\<rparr>)"
    and t2: "tweens w2 = tweens w3"
    using interpolate_tweens[of tid time w] ip by (simp_all add: w3_def dispatch_def)
  have same: "yoyoCount (tweens w3 y) = yoyoCount (tweens w y)" for y
    by (simp add: t3)
  show ?thesis
  proof (cases "paused (tweens w tid) \<or> time < startTime_num (tweens w tid)")
    case True
    then show ?thesis by (auto simp: update_def)
  next
    case False
    show ?thesis
    proof (cases e)
      case (Some err)
      then show ?thesis using False by (simp add: update_def ip t2 same)
    next
      case None
      have up: "update tid time w =
          (if elapsed time (startTime_num (tweens w tid)) (duration (tweens w tid)) = Num 1
           then finish tid w3 else (Return True, w3))"
        using False None by (simp add: update_def ip Let_def w3_def[symmetric]) (simp add: t3)
      show ?thesis
        using False None by (simp add: up ip finish_yoyoCount same) (simp add: t3)
    qed
  qed
qed

lemma update_yoyoCount_le: "\<forall>x. yoyoCount (tweens w x) \<le> 1 \<Longrightarrow> yoyoCount (tweens (snd (update tid time w)) x) \<le> 1"
  by (simp add: update_yoyoCount)

lemma to_yoyoCount:
  "yoyoCount (tweens (snd (tween_to props dur ease auto delay lp yy tid w)) x) =
     (if x = tid then 0 else yoyoCount (tweens w x))"
  by (simp add: tween_to_def Let_def start_yoyoCount upd_tween_def split: option.splits)

lemma reachable_yoyoCount: "reachable w \<Longrightarrow> yoyoCount (tweens w x) \<le> 1"
proof (induction arbitrary: x rule: reachable.induct)
  case (fresh w)
  then obtain ob ease interp where "tweens w x = new_tween ob ease interp" by blast
  then show ?case by (simp add: new_tween_def)
next
  case (to w props dur ease auto delay lp yy tid)
  then show ?case by (simp add: to_yoyoCount)
next
  case (update w tid time)
  then have "\<forall>y. yoyoCount (tweens w y) \<le> 1" by blast
  then show ?case by (rule update_yoyoCount_le)
qed (simp_all add: tween_loop_def tween_yoyo_def chain_tween_def pause_def upd_tween_def start_yoyoCount)

text \<open>
  C9. In every reachable state the yoyo counter of every tween is 0 or 1. \<^verbatim>\<open>to\<close> and
  \<^verbatim>\<open>yoyo\<close> leave it at 0. The update that ends a cycle of a looping tween without yoyo
  leaves it at 0. The update that ends the reversed leg of a looping yoyo tween sets it to
  0 before it reverses again: the state it leaves is the one \<^verbatim>\<open>reverse\<close> makes from
  the counter 0, where the counter is 1.
\<close>

theorem yoyoCount_zero_or_one:
  assumes "reachable w"
  shows "yoyoCount (tweens w x) \<in> {0, 1} \<and>
         yoyoCount (tweens (snd (tween_to props dur ease auto delay lp yy tid w)) tid) = 0 \<and>
         yoyoCount (tweens (tween_yoyo v tid w) tid) = 0 \<and>
         (\<not> paused (tweens w tid) \<and> startTime_num (tweens w tid) \<le> time \<and>
          fst (interpolate tid time w) = None \<and>
          elapsed time (startTime_num (tweens w tid)) (duration (tweens w tid)) = Num 1 \<and>
          loop (tweens w tid) \<and> \<not> yoyo (tweens w tid) \<longrightarrow>
            yoyoCount (tweens (snd (update tid time w)) tid) = 0) \<and>
         (\<not> paused (tweens w tid) \<and> startTime_num (tweens w tid) \<le> time \<and>
          fst (interpolate tid time w) = None \<and>
          elapsed time (startTime_num (tweens w tid)) (duration (tweens w tid)) = Num 1 \<and>
          loop (tweens w tid) \<and> yoyo (tweens w tid) \<and> yoyoCount (tweens w tid) \<noteq> 0 \<longrightarrow>
            snd (update tid time w) =
              snd (reverse tid
                (upd_tween tid (\<lambda>t. t\<lparr>yoyoCount := 0\<rparr>)
                   (dispatch (OnUpdate tid (object (tweens w tid)) (easingFunction (tweens w tid) (Num 1)))
                      (snd (interpolate tid time w))))) \<and>
            yoyoCount (tweens (snd (update tid time w)) tid) = 1)"
proof -
  have 1: "yoyoCount (tweens w x) \<in> {0, 1}"
    using reachable_yoyoCount[OF assms, of x] by auto
  have 2: "yoyoCount (tweens (snd (tween_to props dur ease auto delay lp yy tid w)) tid) = 0"
    by (simp add: to_yoyoCount)
  have 3: "yoyoCount (tweens (tween_yoyo v tid w) tid) = 0"
    by (simp add: tween_yoyo_def upd_tween_def)
  have 4: "yoyoCount (tweens (snd (update tid time w)) tid) = 0"
    if "\<not> paused (tweens w tid)" "startTime_num (tweens w tid) \<le> time"
      "fst (interpolate tid time w) = None"
      "elapsed time (startTime_num (tweens w tid)) (duration (tweens w tid)) = Num 1"
      "loop (tweens w tid)" "\<not> yoyo (tweens w tid)"
    using that by (simp add: update_yoyoCount)
  have 5: "snd (update tid time w) =
              snd (reverse tid
                (upd_tween tid (\<lambda>t. t\<lparr>yoyoCount := 0\<rparr>)
                   (dispatch (OnUpdate tid (object (tweens w tid)) (easingFunction (tweens w tid) (Num 1)))
                      (snd (interpolate tid time w))))) \<and>
            yoyoCount (tweens (snd (update tid time w)) tid) = 1"
    if h: "\<not> paused (tweens w tid)" "startTime_num (tweens w tid) \<le> time"
      "fst (interpolate tid time w) = None"
      "elapsed time (startTime_num (tweens w tid)) (duration (tweens w tid)) = Num 1"
      "loop (tweens w tid)" "yoyo (tweens w tid)" "yoyoCount (tweens w tid) \<noteq> 0"
  proof -
    define w3 where "w3 = dispatch (OnUpdate tid (object (tweens w tid)) (easingFunction (tweens w tid) (Num 1)))
                      (snd (interpolate tid time w))"
    note st = at_end_state[OF h(4), folded w3_def]
    have "update tid time w = finish tid w3"
      using update_at_end[OF h(1,2,4,3)] by (simp add: w3_def)
    moreover have "finish tid w3 = keep_alive (reverse tid (upd_tween tid (\<lambda>t. t\<lparr>yoyoCount := 0\<rparr>) w3))"
      using h(5,6,7) by (simp add: finish_def Let_def st(4))
    ultimately have "snd (update tid time w) =
        snd (reverse tid (upd_tween tid (\<lambda>t. t\<lparr>yoyoCount := 0\<rparr>) w3))"
      by (simp add: snd_keep_alive)
    moreover have "yoyoCount (tweens (snd (update tid time w)) tid) = 1"
      using h by (simp add: update_yoyoCount)
    ultimately show ?thesis by (simp add: w3_def)
  qed
  from 1 2 3 4 5 show ?thesis by blast
qed

lemma reachable_demo: "reachable demo"
  by (rule reachable.fresh) (auto simp: demo_def)

lemma reachable_yoyo_loop_back: "reachable yoyo_loop_back"
  unfolding yoyo_loop_back_def by (intro reachable.update reachable.to reachable_demo)

lemma reachable_started_loop: "reachable started_loop"
  unfolding started_loop_def started_def by (intro reachable.loop reachable.to reachable_demo)

lemma yoyo_loop_back_facts:
  "paused (tweens yoyo_loop_back 0) = False" "startTime_num (tweens yoyo_loop_back 0) = 0"
  "duration (tweens yoyo_loop_back 0) = 1000"
  "yoyo (tweens yoyo_loop_back 0) = True" "yoyoCount (tweens yoyo_loop_back 0) = 1"
  "loop (tweens yoyo_loop_back 0) = True"
  "object (tweens yoyo_loop_back 0) = Some 0"
  by (simp_all add: yoyo_loop_back_def demo_def tween_to_def start_def upd_tween_def
        new_tween_def update_def interpolate_def write_target_def finish_def reverse_def
        keep_alive_def elapsed_def startTime_num_def blend_def Linear_None_def
        js_add_def js_sub_def js_mul_def
        dispatch_def capture_def js_get_def js_in_def bad_key_def start_prop_def Let_def)

theorem yoyoCount_zero_or_one_witness:
  "yoyoCount (tweens yoyo_loop_back 0) = 1 \<and>
   yoyoCount (tweens (snd (update 0 1000 yoyo_loop_back)) 0) = 1 \<and>
   yoyoCount (tweens (tween_yoyo True 0 yoyo_loop_back) 0) = 0 \<and>
   yoyoCount (tweens started_loop 0) = 0 \<and>
   yoyoCount (tweens (snd (update 0 1000 started_loop)) 0) = 0"
proof -
  have e: "elapsed 1000 0 1000 = Num 1" by (simp add: elapsed_def)
  have a: "fst (interpolate 0 1000 yoyo_loop_back) = None"
    by (simp add: interpolate_bound yoyo_loop_back_facts)
  have sl: "paused (tweens started_loop 0) = False" "startTime_num (tweens started_loop 0) = 0"
    "duration (tweens started_loop 0) = 1000" "loop (tweens started_loop 0) = True"
    "yoyo (tweens started_loop 0) = False" "object (tweens started_loop 0) = Some 0"
    "yoyoCount (tweens started_loop 0) = 0"
    by (simp_all add: started_loop_def tween_loop_def upd_tween_def started_facts startTime_num_def)
  have b: "fst (interpolate 0 1000 started_loop) = None"
    by (simp add: interpolate_bound sl)
  have h1: "\<not> paused (tweens yoyo_loop_back 0) \<and> startTime_num (tweens yoyo_loop_back 0) \<le> 1000 \<and>
          fst (interpolate 0 1000 yoyo_loop_back) = None \<and>
          elapsed 1000 (startTime_num (tweens yoyo_loop_back 0)) (duration (tweens yoyo_loop_back 0)) = Num 1 \<and>
          loop (tweens yoyo_loop_back 0) \<and> yoyo (tweens yoyo_loop_back 0) \<and>
          yoyoCount (tweens yoyo_loop_back 0) \<noteq> 0"
    using a e by (simp add: yoyo_loop_back_facts)
  have h2: "\<not> paused (tweens started_loop 0) \<and> startTime_num (tweens started_loop 0) \<le> 1000 \<and>
          fst (interpolate 0 1000 started_loop) = None \<and>
          elapsed 1000 (startTime_num (tweens started_loop 0)) (duration (tweens started_loop 0)) = Num 1 \<and>
          loop (tweens started_loop 0) \<and> \<not> yoyo (tweens started_loop 0)"
    using b e by (simp add: sl)
  from yoyoCount_zero_or_one[OF reachable_yoyo_loop_back, of 0 "[]" 0 None False 0 False False 0 True 1000] h1
  have 1: "yoyoCount (tweens (snd (update 0 1000 yoyo_loop_back)) 0) = 1"
    and 2: "yoyoCount (tweens (tween_yoyo True 0 yoyo_loop_back) 0) = 0"
    by blast+
  from yoyoCount_zero_or_one[OF reachable_started_loop, of 0 "[]" 0 None False 0 False False 0 True 1000] h2
  have 3: "yoyoCount (tweens (snd (update 0 1000 started_loop)) 0) = 0"
    by blast
  from 1 2 3 show ?thesis by (simp add: yoyo_loop_back_facts sl)
qed

section \<open>Updates after the completion\<close>

lemma map_of_update_props:
  "map_of (update_props t ps ob) p = (if p \<in> set ps then Some (blend t p) else map_of ob p)"
  by (induction ps arbitrary: ob) (auto simp: map_of_js_set)

lemma update_props_fixpoint:
  "\<forall>p \<in> set ps. map_of ob p = Some (blend t p) \<Longrightarrow> update_props t ps ob = ob"
  by (induction ps arbitrary: ob) (simp_all add: js_set_same)

lemma update_props_idem: "update_props t ps (update_props t ps ob) = update_props t ps ob"
  by (rule update_props_fixpoint) (simp add: map_of_update_props)

lemma blend_cong:
  "valuesStart t' = valuesStart t \<Longrightarrow> valuesEnd t' = valuesEnd t \<Longrightarrow> tempValue t' = tempValue t \<Longrightarrow>
   interpolationFunction t' = interpolationFunction t \<Longrightarrow> blend t' p = blend t p"
  by (simp add: blend_def split: jsval.splits)

lemma update_props_cong:
  "(\<And>p. blend t' p = blend t p) \<Longrightarrow> update_props t' ps ob = update_props t ps ob"
  by (induction ps arbitrary: ob) simp_all

lemma start_raises_cong1:
  "tweens w' c = tweens w c \<Longrightarrow> objects w' = objects w \<Longrightarrow> start_raises w' c = start_raises w c"
  by (auto simp: start_raises_def split: option.splits)

lemma start_chained_start_raises:
  "start_raises (snd (start_chained cs w)) x = start_raises w x"
  by (induction cs arbitrary: w)
     (simp_all add: start_chained_Cons start_start_raises del: start_chained.simps(2))

lemma complete_start_raises: "start_raises (snd (complete tid w)) x = start_raises w x"
proof -
  have "start_raises (dispatch (OnComplete tid (object (tweens w tid))) w) x = start_raises w x"
    by (rule start_raises_cong1) (simp_all add: dispatch_def)
  then show ?thesis
    by (simp add: complete_def Let_def start_chained_start_raises)
qed

lemma complete_other:
  "x \<notin> set (chainedTweens (tweens w tid)) \<Longrightarrow> tweens (snd (complete tid w)) x = tweens w x"
  by (simp add: complete_def Let_def start_chained_other dispatch_def)

text \<open>The result of \<^verbatim>\<open>update\<close> on the plain completion branch.\<close>

lemma plain_completion_result:
  assumes "\<not> paused (tweens w tid)"
    and "startTime_num (tweens w tid) \<le> time"
    and "elapsed time (startTime_num (tweens w tid)) (duration (tweens w tid)) = Num 1"
    and "\<not> yoyo (tweens w tid)" and "\<not> loop (tweens w tid)"
    and "fst (interpolate tid time w) = None"
    and "\<not> list_ex (start_raises (snd (interpolate tid time w))) (chainedTweens (tweens w tid))"
  shows "update tid time w =
           (Return False,
            if chainedTweens (tweens w tid) = []
            then upd_tween tid (\<lambda>t. t\<lparr>isRunning := False\<rparr>)
                   (snd (complete tid
                      (dispatch (OnUpdate tid (object (tweens w tid)) (easingFunction (tweens w tid) (Num 1)))
                         (snd (interpolate tid time w)))))
            else snd (complete tid
                      (dispatch (OnUpdate tid (object (tweens w tid)) (easingFunction (tweens w tid) (Num 1)))
                         (snd (interpolate tid time w)))))"
proof -
  define w3 where "w3 = dispatch (OnUpdate tid (object (tweens w tid)) (easingFunction (tweens w tid) (Num 1)))
                         (snd (interpolate tid time w))"
  define w4 where "w4 = snd (complete tid w3)"
  note cb = completion_branch[OF assms(3) assms(7), folded w3_def, folded w4_def]
  note st = at_end_state[OF assms(3), folded w3_def]
  have c: "complete tid w3 = (None, w4)"
    using cb(1) by (simp add: w4_def prod_eq_iff)
  have flags: "\<not> yoyo (tweens w3 tid)" "\<not> loop (tweens w3 tid)"
    using assms(4,5) by (simp_all add: st(4))
  show ?thesis
    using update_at_end[OF assms(1,2,3,6), folded w3_def] flags
    unfolding w3_def[symmetric] w4_def[symmetric]
    by (simp add: finish_def Let_def c cb(6))
qed

lemma objects_after_plain_completion:
  "objects (if b then upd_tween tid f (snd (complete tid (dispatch ev w2)))
            else snd (complete tid (dispatch ev w2))) = objects w2"
  by (simp add: complete_objects upd_tween_def dispatch_def)

lemma update_when_complete:
  assumes "\<not> paused (tweens u tid)" and "\<not> yoyo (tweens u tid)" and "\<not> loop (tweens u tid)"
    and "startTime (tweens u tid) = Some st" and "duration (tweens u tid) = d" and "0 < d"
    and "object (tweens u tid) = Some oid" and "st + d \<le> time"
    and "\<not> list_ex (start_raises (snd (interpolate tid time u))) (chainedTweens (tweens u tid))"
  shows "fst (update tid time u) = Return False"
    and "objects (snd (update tid time u)) =
           (objects u)(oid := update_props
              ((tweens u tid)\<lparr>tempElapsed := Num 1,
                               tempValue := easingFunction (tweens u tid) (Num 1)\<rparr>)
              (map fst (valuesStart (tweens u tid))) (objects u oid))"
proof -
  have st: "startTime_num (tweens u tid) = st"
    using assms(4) by (simp add: startTime_num_def)
  have el: "elapsed time (startTime_num (tweens u tid)) (duration (tweens u tid)) = Num 1"
    using assms(5,6,8) by (simp add: st elapsed_after)
  have ipn: "fst (interpolate tid time u) = None"
    by (simp add: interpolate_bound[OF assms(7)])
  have st1: "startTime_num (tweens u tid) \<le> time"
    using assms(6,8) by (simp add: st)
  note res = plain_completion_result[OF assms(1) st1 el assms(2,3) ipn assms(9)]
  show "fst (update tid time u) = Return False"
    by (simp add: res)
  have "objects (snd (update tid time u)) = objects (snd (interpolate tid time u))"
    unfolding res snd_conv by (rule objects_after_plain_completion)
  also have "\<dots> = (objects u)(oid := update_props
              ((tweens u tid)\<lparr>tempElapsed := Num 1,
                               tempValue := easingFunction (tweens u tid) (Num 1)\<rparr>)
              (map fst (valuesStart (tweens u tid))) (objects u oid))"
    using interpolate_bound[OF assms(7), of time] el by simp
  finally show "objects (snd (update tid time u)) =
           (objects u)(oid := update_props
              ((tweens u tid)\<lparr>tempElapsed := Num 1,
                               tempValue := easingFunction (tweens u tid) (Num 1)\<rparr>)
              (map fst (valuesStart (tweens u tid))) (objects u oid))" .
qed

text \<open>What a later \<^verbatim>\<open>update\<close> writes, in a state \<open>u\<close> where the tween is undisturbed.\<close>

lemma later_update_writes:
  assumes "\<not> paused (tweens w tid)" and "\<not> yoyo (tweens w tid)" and "\<not> loop (tweens w tid)"
    and "startTime (tweens w tid) = Some st" and "duration (tweens w tid) = d" and "0 < d"
    and "object (tweens w tid) = Some oid"
    and "st + d \<le> time" and "time \<le> time'"
    and "\<not> list_ex (start_raises (snd (interpolate tid time w))) (chainedTweens (tweens w tid))"
    and und: "undisturbed (tweens w tid) (tweens u tid)"
    and "\<not> list_ex (start_raises (snd (interpolate tid time' u))) (chainedTweens (tweens w tid))"
  shows "fst (update tid time' u) = Return False"
    and "map_of (objects (snd (update tid time' u)) oid) p =
           (if p \<in> set (map fst (valuesStart (tweens w tid)))
            then map_of (objects (snd (update tid time w)) oid) p
            else map_of (objects u oid) p)"
    and "o' \<noteq> oid \<Longrightarrow> objects (snd (update tid time' u)) o' = objects u o'"
    and "\<forall>q \<in> set (map fst (valuesStart (tweens w tid))).
             map_of (objects u oid) q = map_of (objects (snd (update tid time w)) oid) q \<Longrightarrow>
           objects (snd (update tid time' u)) = objects u"
proof -
  let ?t = "tweens w tid" and ?tu = "tweens u tid"
  define ks where "ks = map fst (valuesStart ?t)"
  define t1 where "t1 = ?t\<lparr>tempElapsed := Num 1, tempValue := easingFunction ?t (Num 1)\<rparr>"
  define t1u where "t1u = ?tu\<lparr>tempElapsed := Num 1, tempValue := easingFunction ?tu (Num 1)\<rparr>"
  from und have f: "valuesStart ?tu = valuesStart ?t" "valuesEnd ?tu = valuesEnd ?t"
    "duration ?tu = duration ?t" "startTime ?tu = startTime ?t"
    "easingFunction ?tu = easingFunction ?t" "interpolationFunction ?tu = interpolationFunction ?t"
    "object ?tu = object ?t" "paused ?tu = paused ?t" "yoyo ?tu = yoyo ?t" "loop ?tu = loop ?t"
    "chainedTweens ?tu = chainedTweens ?t"
    by (simp_all add: undisturbed_def)
  have hu: "\<not> paused ?tu" "\<not> yoyo ?tu" "\<not> loop ?tu" "startTime ?tu = Some st" "duration ?tu = d"
    "object ?tu = Some oid" "st + d \<le> time'"
    "\<not> list_ex (start_raises (snd (interpolate tid time' u))) (chainedTweens ?tu)"
    using assms by (simp_all add: f)
  note cu = update_when_complete[OF hu(1-5) assms(6) hu(6-8), folded t1u_def, unfolded f(1), folded ks_def]
  note cw = update_when_complete[OF assms(1-8) assms(10), folded t1_def, folded ks_def]
  show "fst (update tid time' u) = Return False" by (rule cu(1))
  have bl: "blend t1u q = blend t1 q" for q
    by (rule blend_cong) (simp_all add: t1u_def t1_def f)
  have up: "update_props t1u ks ob = update_props t1 ks ob" for ob
    by (rule update_props_cong) (rule bl)
  have ou: "objects (snd (update tid time' u)) = (objects u)(oid := update_props t1 ks (objects u oid))"
    by (simp add: cu(2) up)
  have ow: "objects (snd (update tid time w)) oid = update_props t1 ks (objects w oid)"
    by (simp add: cw(2))
  show "map_of (objects (snd (update tid time' u)) oid) p =
           (if p \<in> set (map fst (valuesStart ?t))
            then map_of (objects (snd (update tid time w)) oid) p
            else map_of (objects u oid) p)"
    by (simp add: ou ow map_of_update_props ks_def[symmetric])
  show "objects (snd (update tid time' u)) o' = objects u o'" if "o' \<noteq> oid"
    using that by (simp add: ou)
  show "objects (snd (update tid time' u)) = objects u"
    if "\<forall>q \<in> set (map fst (valuesStart ?t)).
          map_of (objects u oid) q = map_of (objects (snd (update tid time w)) oid) q"
  proof -
    have "\<forall>q \<in> set ks. map_of (objects u oid) q = Some (blend t1 q)"
      using that by (simp add: ow map_of_update_props ks_def)
    then have "update_props t1 ks (objects u oid) = objects u oid"
      by (rule update_props_fixpoint)
    then show ?thesis by (simp add: ou)
  qed
qed

lemma plain_completion_aftermath:
  assumes "\<not> paused (tweens w tid)" and "\<not> yoyo (tweens w tid)" and "\<not> loop (tweens w tid)"
    and "startTime (tweens w tid) = Some st" and "duration (tweens w tid) = d" and "0 < d"
    and "object (tweens w tid) = Some oid"
    and "tid \<notin> set (chainedTweens (tweens w tid))"
    and "st + d \<le> time" and "time \<le> time'"
    and "\<not> list_ex (start_raises (snd (interpolate tid time w))) (chainedTweens (tweens w tid))"
  shows "(\<forall>tm. tm < st + d \<longrightarrow> fst (update tid tm w) = Return True) \<and>
         fst (update tid time w) = Return False \<and>
         fst (update tid time' (snd (update tid time w))) = Return False \<and>
         objects (snd (update tid time' (snd (update tid time w)))) =
           objects (snd (update tid time w)) \<and>
         undisturbed (tweens w tid) (tweens (snd (update tid time w)) tid)"
proof -
  let ?t = "tweens w tid"
  define cs where "cs = chainedTweens ?t"
  define tv where "tv = easingFunction ?t (Num 1)"
  define t1 where "t1 = ?t\<lparr>tempElapsed := Num 1, tempValue := tv\<rparr>"
  define ks where "ks = map fst (valuesStart ?t)"
  define w2 where "w2 = snd (interpolate tid time w)"
  define w3 where "w3 = dispatch (OnUpdate tid (object ?t) tv) w2"
  define w4 where "w4 = snd (complete tid w3)"
  define W where "W = snd (update tid time w)"
  have st: "startTime_num ?t = st"
    using assms(4) by (simp add: startTime_num_def)
  have el: "elapsed time (startTime_num ?t) (duration ?t) = Num 1"
    using assms(5,6,9) by (simp add: st elapsed_after)
  have ipn: "fst (interpolate tid tm w) = None" for tm
    by (simp add: interpolate_bound[OF assms(7)])
  have before: "fst (update tid tm w) = Return True" if "tm < st + d" for tm
  proof (cases "tm < st")
    case True
    then show ?thesis by (simp add: update_def st)
  next
    case False
    have "elapsed tm st d \<noteq> Num 1"
      using that assms(6) by (auto simp: elapsed_def field_simps)
    then have "tempElapsed (tweens (snd (interpolate tid tm w)) tid) \<noteq> Num 1"
      by (simp add: interpolate_tweens st assms(5))
    moreover have "interpolate tid tm w = (None, snd (interpolate tid tm w))"
      using ipn[of tm] by (metis prod.collapse)
    ultimately show ?thesis
      using update_live[OF assms(1), of tm "snd (interpolate tid tm w)"] False
      by (simp add: st)
  qed
  have st1: "startTime_num ?t \<le> time"
    using assms(6,9) by (simp add: st)
  note res = plain_completion_result[OF assms(1) st1 el assms(2,3) ipn assms(11),
      folded tv_def, folded w2_def, folded w3_def, folded w4_def, folded cs_def]
  have first: "fst (update tid time w) = Return False"
    by (simp add: res)
  have Weq: "W = (if cs = [] then upd_tween tid (\<lambda>t. t\<lparr>isRunning := False\<rparr>) w4 else w4)"
    by (simp add: W_def res)
  note at = at_end_state[OF el, folded tv_def, folded w2_def, folded w3_def]
  have t3: "tweens w3 tid = t1"
    by (simp add: at(4) t1_def)
  have "chainedTweens (tweens w3 tid) = cs"
    by (simp add: t3 t1_def cs_def)
  then have t4: "tweens w4 tid = t1"
    using assms(8) complete_other[of tid w3 tid] by (simp add: w4_def cs_def t3)
  have tW: "tweens W tid = t1\<lparr>isRunning := isRunning (tweens W tid)\<rparr>"
    by (simp add: Weq upd_tween_def t4)
  have oW: "objects W = objects w2"
    unfolding Weq w4_def w3_def by (rule objects_after_plain_completion)
  have o2: "objects w2 = (objects w)(oid := update_props t1 ks (objects w oid))"
    using interpolate_bound[OF assms(7), of time] el
    by (simp add: w2_def t1_def tv_def ks_def)
  have Wother: "tweens W c = tweens w4 c" if "c \<noteq> tid" for c
    using that by (simp add: Weq upd_tween_def)
  have fW: "\<not> paused (tweens W tid)" "\<not> yoyo (tweens W tid)" "\<not> loop (tweens W tid)"
    "startTime_num (tweens W tid) = st" "duration (tweens W tid) = d"
    "object (tweens W tid) = Some oid" "chainedTweens (tweens W tid) = cs"
    "easingFunction (tweens W tid) (Num 1) = tv" "valuesStart (tweens W tid) = valuesStart ?t"
    using assms(1,2,3,5,7) st
    by (subst tW, simp add: t1_def startTime_num_def cs_def tv_def)+
  have el': "elapsed time' (startTime_num (tweens W tid)) (duration (tweens W tid)) = Num 1"
    using assms(6,9,10) by (simp add: fW elapsed_after)
  define W2 where "W2 = snd (interpolate tid time' W)"
  have ipW: "fst (interpolate tid time' W) = None"
    by (simp add: interpolate_bound[OF fW(6)])
  have bl: "blend ((tweens W tid)\<lparr>tempElapsed := Num 1, tempValue := tv\<rparr>) p = blend t1 p" for p
    by (rule blend_cong) (subst tW, simp add: t1_def)+
  have oW2: "objects W2 = objects W"
  proof -
    have "objects W2 = (objects W)(oid := update_props
        ((tweens W tid)\<lparr>tempElapsed := Num 1, tempValue := tv\<rparr>) ks (objects W oid))"
      using interpolate_bound[OF fW(6), of time'] el'
      by (simp add: W2_def fW ks_def)
    also have "update_props ((tweens W tid)\<lparr>tempElapsed := Num 1, tempValue := tv\<rparr>) ks (objects W oid) =
        update_props t1 ks (objects W oid)"
      by (rule update_props_cong) (rule bl)
    also have "update_props t1 ks (objects W oid) = objects W oid"
      by (simp add: oW o2 update_props_idem)
    finally show ?thesis by simp
  qed
  have srW: "\<not> list_ex (start_raises W2) (chainedTweens (tweens W tid))"
  proof -
    have "start_raises W2 c = start_raises w2 c" if "c \<in> set cs" for c
    proof -
      from that assms(8) have ne: "c \<noteq> tid" by (auto simp: cs_def)
      have "tweens W2 c = tweens w4 c"
        using ne by (simp add: W2_def interpolate_tweens Wother)
      moreover have "objects W2 = objects w4"
        by (simp add: oW2 oW w4_def complete_objects w3_def dispatch_def)
      ultimately have "start_raises W2 c = start_raises w4 c"
        by (rule start_raises_cong1)
      also have "\<dots> = start_raises w3 c"
        by (simp add: w4_def complete_start_raises)
      also have "\<dots> = start_raises w2 c"
        by (simp add: at(6))
      finally show ?thesis .
    qed
    then show ?thesis
      using assms(11) by (simp add: fW cs_def[symmetric] w2_def[symmetric] list_ex_iff)
  qed
  have st2: "startTime_num (tweens W tid) \<le> time'"
    using assms(6,9,10) by (simp add: fW)
  note res2 = plain_completion_result[OF fW(1) st2 el' fW(2,3) ipW srW[unfolded W2_def]]
  have second: "fst (update tid time' W) = Return False"
    by (simp add: res2)
  have "objects (snd (update tid time' W)) = objects W2"
    unfolding res2 W2_def snd_conv by (rule objects_after_plain_completion)
  then have same: "objects (snd (update tid time' W)) = objects W"
    by (simp add: oW2)
  have und: "undisturbed (tweens w tid) (tweens W tid)"
    by (subst tW) (simp add: undisturbed_def t1_def)
  from before first second same und show ?thesis
    by (simp add: W_def)
qed


text \<open>
  C3, as the code has it. For a started tween that is not paused, neither yoyo nor
  looping, not chained to itself and whose chained starts do not raise: \<^verbatim>\<open>update\<close>
  returns true at every time before the clamped elapsed value reaches 1 and false at the
  time where it reaches 1, and it leaves the tween undisturbed. In every later state \<open>u\<close>
  where the tween is undisturbed, \<^verbatim>\<open>update\<close> returns false again; it writes to the keys
  of \<^verbatim>\<open>_valuesStart\<close> the values that the completing call wrote and leaves every other
  property and every other target as it is. So the targets are unchanged when the target
  still holds those values, as it does in the state that the completing call leaves, and
  otherwise the call writes them back.
\<close>

theorem plain_tween_after_completion:
  assumes "\<not> paused (tweens w tid)" and "\<not> yoyo (tweens w tid)" and "\<not> loop (tweens w tid)"
    and "startTime (tweens w tid) = Some st" and "duration (tweens w tid) = d" and "0 < d"
    and "object (tweens w tid) = Some oid"
    and "tid \<notin> set (chainedTweens (tweens w tid))"
    and "st + d \<le> time" and "time \<le> time'"
    and "\<not> list_ex (start_raises (snd (interpolate tid time w))) (chainedTweens (tweens w tid))"
    and "undisturbed (tweens w tid) (tweens u tid)"
    and "\<not> list_ex (start_raises (snd (interpolate tid time' u))) (chainedTweens (tweens w tid))"
  shows "(\<forall>tm. tm < st + d \<longrightarrow> fst (update tid tm w) = Return True) \<and>
         fst (update tid time w) = Return False \<and>
         fst (update tid time' (snd (update tid time w))) = Return False \<and>
         objects (snd (update tid time' (snd (update tid time w)))) =
           objects (snd (update tid time w)) \<and>
         undisturbed (tweens w tid) (tweens (snd (update tid time w)) tid) \<and>
         fst (update tid time' u) = Return False \<and>
         (\<forall>p. map_of (objects (snd (update tid time' u)) oid) p =
           (if p \<in> set (map fst (valuesStart (tweens w tid)))
            then map_of (objects (snd (update tid time w)) oid) p
            else map_of (objects u oid) p)) \<and>
         (\<forall>o'. o' \<noteq> oid \<longrightarrow> objects (snd (update tid time' u)) o' = objects u o') \<and>
         ((\<forall>q \<in> set (map fst (valuesStart (tweens w tid))).
              map_of (objects u oid) q = map_of (objects (snd (update tid time w)) oid) q) \<longrightarrow>
            objects (snd (update tid time' u)) = objects u)"
proof -
  note a = plain_completion_aftermath[OF assms(1-11)]
  note l = later_update_writes[OF assms(1-7) assms(9-13)]
  from a l(1) l(2) l(3) l(4) show ?thesis by blast
qed

lemma chained_pair_facts:
  "paused (tweens (clock_at 1000 chained_pair) 0) = False"
  "yoyo (tweens (clock_at 1000 chained_pair) 0) = False"
  "loop (tweens (clock_at 1000 chained_pair) 0) = False"
  "startTime (tweens (clock_at 1000 chained_pair) 0) = Some 0"
  "duration (tweens (clock_at 1000 chained_pair) 0) = 1000"
  "object (tweens (clock_at 1000 chained_pair) 0) = Some 0"
  "chainedTweens (tweens (clock_at 1000 chained_pair) 0) = [2]"
  "valuesStart (tweens (clock_at 1000 chained_pair) 0) = [(''x'', Num 0)]"
  "start_raises (snd (interpolate 0 1000 (clock_at 1000 chained_pair))) 2 = False"
  "undisturbed (tweens (clock_at 1000 chained_pair) 0) (tweens (clock_at 1600 pair_moved) 0)"
  "start_raises (snd (interpolate 0 1600 (clock_at 1600 pair_moved))) 2 = False"
  "objects pair_done 0 = [(''x'', Num 10), (''y'', Num 5)]"
  "objects pair_moved 0 = [(''x'', Num 15), (''y'', Num 5)]"
  "objects (clock_at 1600 pair_moved) 0 = [(''x'', Num 15), (''y'', Num 5)]"
  by (simp_all add: undisturbed_def start_raises_def pair_moved_def pair_done_def chained_pair_def
        chain_tween_def clock_at_def started_def demo_def tween_to_def start_def upd_tween_def
        new_tween_def update_def interpolate_def write_target_def finish_def complete_def
        elapsed_def startTime_num_def blend_def Linear_None_def
        js_add_def js_sub_def js_mul_def
        dispatch_def capture_def js_get_def js_in_def bad_key_def start_prop_def Let_def)

theorem plain_tween_after_completion_witness:
  "fst (update 0 999 (clock_at 1000 chained_pair)) = Return True \<and>
   fst (update 0 1000 (clock_at 1000 chained_pair)) = Return False \<and>
   objects (snd (update 0 1600 (snd (update 0 1000 (clock_at 1000 chained_pair))))) =
     objects (snd (update 0 1000 (clock_at 1000 chained_pair))) \<and>
   map_of (objects (clock_at 1600 pair_moved) 0) ''x'' = Some (Num 15) \<and>
   fst (update 0 1600 (clock_at 1600 pair_moved)) = Return False \<and>
   map_of (objects (snd (update 0 1600 (clock_at 1600 pair_moved))) 0) ''x'' = Some (Num 10) \<and>
   map_of (objects (snd (update 0 1600 (clock_at 1600 pair_moved))) 0) ''y'' = Some (Num 5)"
proof -
  have h: "\<not> paused (tweens (clock_at 1000 chained_pair) 0)"
    "\<not> yoyo (tweens (clock_at 1000 chained_pair) 0)"
    "\<not> loop (tweens (clock_at 1000 chained_pair) 0)"
    "(0::real) < 1000"
    "0 \<notin> set (chainedTweens (tweens (clock_at 1000 chained_pair) 0))"
    "(0::real) + 1000 \<le> 1000" "(1000::real) \<le> 1600"
    "\<not> list_ex (start_raises (snd (interpolate 0 1000 (clock_at 1000 chained_pair))))
         (chainedTweens (tweens (clock_at 1000 chained_pair) 0))"
    "\<not> list_ex (start_raises (snd (interpolate 0 1600 (clock_at 1600 pair_moved))))
         (chainedTweens (tweens (clock_at 1000 chained_pair) 0))"
    by (simp_all add: chained_pair_facts)
  note t = plain_tween_after_completion[OF h(1,2,3) chained_pair_facts(4,5) h(4)
      chained_pair_facts(6) h(5,6,7,8) chained_pair_facts(10) h(9)]
  have 1: "fst (update 0 999 (clock_at 1000 chained_pair)) = Return True"
  proof -
    from t have "\<forall>tm. tm < 0 + 1000 \<longrightarrow> fst (update 0 tm (clock_at 1000 chained_pair)) = Return True"
      by blast
    then show ?thesis by simp
  qed
  from t have 2: "fst (update 0 1000 (clock_at 1000 chained_pair)) = Return False"
    by blast
  from t have 3: "objects (snd (update 0 1600 (snd (update 0 1000 (clock_at 1000 chained_pair))))) =
     objects (snd (update 0 1000 (clock_at 1000 chained_pair)))"
    by blast
  from t have 4: "fst (update 0 1600 (clock_at 1600 pair_moved)) = Return False"
    by blast
  from t have 5: "\<forall>p. map_of (objects (snd (update 0 1600 (clock_at 1600 pair_moved))) 0) p =
           (if p \<in> set (map fst (valuesStart (tweens (clock_at 1000 chained_pair) 0)))
            then map_of (objects (snd (update 0 1000 (clock_at 1000 chained_pair))) 0) p
            else map_of (objects (clock_at 1600 pair_moved) 0) p)"
    by blast
  have 6: "map_of (objects (snd (update 0 1600 (clock_at 1600 pair_moved))) 0) ''x'' = Some (Num 10)"
    using 5[rule_format, of "''x''"]
    by (simp add: chained_pair_facts pair_done_def[symmetric])
  have 7: "map_of (objects (snd (update 0 1600 (clock_at 1600 pair_moved))) 0) ''y'' = Some (Num 5)"
    using 5[rule_format, of "''y''"]
    by (simp add: chained_pair_facts)
  from 1 2 3 4 6 7 show ?thesis
    by (simp add: chained_pair_facts)
qed

text \<open>
  The claim C3 says that \<^verbatim>\<open>update\<close> returns false exactly once and that no later call
  changes the target. Nothing in \<^verbatim>\<open>update\<close> records that the tween has finished:
  called again after the completing tick it returns false again, and dispatches the
  completion notification again. And it writes the end values again: with tween 2 chained
  to tween 0 on the same target, tween 2 has moved \<open>x\<close> to 15 when the update of tween 0
  at time 1600 puts 10 back.
\<close>

theorem update_returns_false_again:
  "fst (update 0 1000 started) = Return False \<and>
   fst (update 0 1001 (snd (update 0 1000 started))) = Return False \<and>
   signals (snd (update 0 1001 (snd (update 0 1000 started)))) =
     [OnStart 0 (Some 0), OnUpdate 0 (Some 0) (Num 1), OnComplete 0 (Some 0),
      OnUpdate 0 (Some 0) (Num 1), OnComplete 0 (Some 0)] \<and>
   fst (update 0 1000 (clock_at 1000 chained_pair)) = Return False \<and>
   fst (update 2 1500 (clock_at 1500 pair_done)) = Return True \<and>
   js_get (objects pair_moved 0) ''x'' = Num 15 \<and>
   fst (update 0 1600 (clock_at 1600 pair_moved)) = Return False \<and>
   js_get (objects (snd (update 0 1600 (clock_at 1600 pair_moved))) 0) ''x'' = Num 10"
  by (simp add: pair_moved_def pair_done_def chained_pair_def
        chain_tween_def clock_at_def started_def demo_def tween_to_def start_def upd_tween_def
        new_tween_def update_def interpolate_def write_target_def finish_def complete_def
        elapsed_def startTime_num_def blend_def Linear_None_def
        js_add_def js_sub_def js_mul_def
        dispatch_def capture_def js_get_def js_in_def bad_key_def start_prop_def Let_def)

section \<open>reset after the completion\<close>

lemma update_props_fold: "update_props t ps ob = fold (\<lambda>p. js_set p (blend t p)) ps ob"
  by (induction ps arbitrary: ob) simp_all

lemma reset_props_fold: "reset_props t ps ob = fold (\<lambda>p. js_set p (js_get (valuesStart t) p)) ps ob"
  by (induction ps arbitrary: ob) simp_all

lemma fold_js_set_Cons:
  "fold (\<lambda>p. js_set p (f p)) ks ((k0, v0) # ob) =
     (k0, if k0 \<in> set ks then f k0 else v0) # fold (\<lambda>p. js_set p (f p)) (filter (\<lambda>k. k \<noteq> k0) ks) ob"
  by (induction ks arbitrary: v0 ob) auto

lemma fold_js_set_absorb:
  "set ks \<subseteq> fst ` set ob \<Longrightarrow>
     fold (\<lambda>p. js_set p (g p)) ks (fold (\<lambda>p. js_set p (f p)) ks ob) = fold (\<lambda>p. js_set p (g p)) ks ob"
proof (induction ob arbitrary: ks)
  case Nil
  then show ?case by simp
next
  case (Cons kv ob)
  obtain k0 v0 where kv: "kv = (k0, v0)" by (cases kv)
  have "set (filter (\<lambda>k. k \<noteq> k0) ks) \<subseteq> fst ` set ob"
    using Cons.prems by (auto simp: kv)
  from Cons.IH[OF this] show ?case
    by (simp add: kv fold_js_set_Cons)
qed

lemma fold_js_set_fixpoint:
  "\<forall>p \<in> set ks. map_of ob p = Some (f p) \<Longrightarrow> fold (\<lambda>p. js_set p (f p)) ks ob = ob"
  by (induction ks arbitrary: ob) (simp_all add: js_set_same)

lemma reset_undoes_update:
  assumes "\<forall>p \<in> set ks. map_of ob p = Some (js_get (valuesStart t) p)"
  shows "reset_props t ks (update_props t1 ks ob) = ob"
proof -
  have "set ks \<subseteq> fst ` set ob"
    using assms by (auto dest!: bspec map_of_SomeD intro: rev_image_eqI)
  then have "reset_props t ks (update_props t1 ks ob) = reset_props t ks ob"
    by (simp add: reset_props_fold update_props_fold fold_js_set_absorb)
  also have "\<dots> = ob"
    using assms by (simp add: reset_props_fold fold_js_set_fixpoint)
  finally show ?thesis .
qed

lemma update_props_cong_on:
  "\<forall>p \<in> set ps. blend t' p = blend t p \<Longrightarrow> update_props t' ps ob = update_props t ps ob"
  by (induction ps arbitrary: ob) simp_all

lemma start_prop_scalar_end:
  "js_get (valuesEnd t) p = Num v \<Longrightarrow> js_get (valuesEnd (start_prop l ob q t)) p = Num v"
  by (auto simp: start_prop_def capture_def js_get_js_set split: jsval.splits)

lemma start_props_scalar_end:
  "js_get (valuesEnd t) p = Num v \<Longrightarrow> js_get (valuesEnd (snd (start_props l ob ps t))) p = Num v"
  by (induction ps arbitrary: t) (simp_all add: start_prop_scalar_end)

text \<open>An internal restart of a tween that has a game and a target.\<close>

lemma restart_bound:
  assumes "game (tweens w tid) = Some g" and "object (tweens w tid) = Some oid"
  shows "objects (snd (start True tid w)) = objects w"
    and "manager (snd (start True tid w)) = manager w"
    and "signals (snd (start True tid w)) = signals w"
    and "startTime (tweens (snd (start True tid w)) tid) = Some (time_now w + delayTime (tweens w tid))"
    and "isRunning (tweens (snd (start True tid w)) tid)"
    and "valuesStart (tweens (snd (start True tid w)) tid) = valuesStart (tweens w tid)"
    and "js_get (valuesEnd (tweens w tid)) p = Num v \<Longrightarrow>
           js_get (valuesEnd (tweens (snd (start True tid w)) tid)) p = Num v"
    and "start_touches (tweens w tid) (tweens (snd (start True tid w)) tid)"
proof -
  have sa: "startable w tid" using assms by (simp add: startable_def)
  let ?t2 = "(tweens w tid)\<lparr>startTime := Some (time_now w + delayTime (tweens w tid)), isRunning := True\<rparr>"
  obtain r t3 where sp: "start_props True (objects w oid) (map fst (valuesEnd (tweens w tid))) ?t2 = (r, t3)"
    by (meson surj_pair)
  note sb = start_bound[OF assms sp]
  show "objects (snd (start True tid w)) = objects w" by (simp add: start_objects)
  show "manager (snd (start True tid w)) = manager w" by (simp add: start_manager)
  show "signals (snd (start True tid w)) = signals w" by (simp add: start_signals)
  show "startTime (tweens (snd (start True tid w)) tid) = Some (time_now w + delayTime (tweens w tid))"
    by (rule start_startTime[OF sa])
  show "isRunning (tweens (snd (start True tid w)) tid)" using sa by (simp add: start_running)
  have t3: "t3 = snd (start_props True (objects w oid) (map fst (valuesEnd (tweens w tid))) ?t2)"
    by (simp add: sp)
  show "valuesStart (tweens (snd (start True tid w)) tid) = valuesStart (tweens w tid)"
    by (simp add: sb t3 start_props_looped_valuesStart)
  show "js_get (valuesEnd (tweens (snd (start True tid w)) tid)) p = Num v"
    if "js_get (valuesEnd (tweens w tid)) p = Num v"
    using that by (simp add: sb t3 start_props_scalar_end)
  show "start_touches (tweens w tid) (tweens (snd (start True tid w)) tid)"
    by (rule start_touches_self)
qed

lemma finish_plain_tween:
  assumes "\<not> yoyo (tweens w tid)" and "\<not> loop (tweens w tid)"
    and "tid \<notin> set (chainedTweens (tweens w tid))"
  shows "tweens (snd (finish tid w)) tid =
           (tweens w tid)\<lparr>isRunning := isRunning (tweens (snd (finish tid w)) tid)\<rparr>"
proof -
  obtain e w1 where c: "complete tid w = (e, w1)" by (meson surj_pair)
  have "tweens w1 tid = tweens w tid"
    using complete_other[OF assms(3)] c by simp
  then show ?thesis
    using assms(1,2) by (cases e) (simp_all add: finish_def Let_def c upd_tween_def)
qed

lemma blend_scalar_end:
  "js_get (valuesEnd t) p = Num v \<Longrightarrow>
     blend t p = js_add (js_get (valuesStart t) p)
                   (js_mul (js_sub (Num v) (js_get (valuesStart t) p)) (tempValue t))"
  by (simp add: blend_def)

lemma map_of_reset_props:
  "map_of (reset_props t ps ob) p =
     (if p \<in> set ps then Some (js_get (valuesStart t) p) else map_of ob p)"
  by (induction ps arbitrary: ob) (auto simp: map_of_js_set)

lemma bad_key_after_reset:
  "bad_key (reset_props t ks (update_props t1 ks ob)) p =
     (if p \<in> set ks then js_get (valuesStart t) p = Null else bad_key ob p)"
  by (simp add: bad_key_def js_get_def js_in_def map_of_reset_props map_of_update_props)

lemma update_after_reset:
  "update_props t1 ks (reset_props t ks (update_props t1 ks ob)) = update_props t1 ks ob"
proof -
  define X where "X = update_props t1 ks ob"
  have sub: "set ks \<subseteq> fst ` set X"
  proof
    fix p assume "p \<in> set ks"
    then have "map_of X p = Some (blend t1 p)"
      by (simp add: X_def map_of_update_props)
    then show "p \<in> fst ` set X"
      by (auto dest!: map_of_SomeD intro: rev_image_eqI)
  qed
  have "update_props t1 ks (reset_props t ks X) =
      fold (\<lambda>p. js_set p (blend t1 p)) ks (fold (\<lambda>p. js_set p (js_get (valuesStart t) p)) ks X)"
    by (simp only: update_props_fold reset_props_fold)
  also have "\<dots> = fold (\<lambda>p. js_set p (blend t1 p)) ks X"
    by (rule fold_js_set_absorb[OF sub])
  also have "\<dots> = update_props t1 ks X"
    by (simp only: update_props_fold)
  also have "\<dots> = X"
    by (simp add: X_def update_props_idem)
  finally show ?thesis by (simp add: X_def)
qed

text \<open>
  C7. Take a started tween, neither yoyo nor looping nor paused nor chained to itself,
  whose start and end values are numbers, and the \<^verbatim>\<open>update\<close> that runs it to
  completion. Let the clock be \<open>n\<close> and call \<^verbatim>\<open>reset\<close>. The call returns the tween;
  every key of \<^verbatim>\<open>_valuesStart\<close> has its captured value on the target again and the
  other properties are untouched, so that the target is the object it was before the tween
  ran when the captured values were its values then; and the tween has restarted
  internally (running, start time \<open>n\<close> plus the delay, nothing added to the manager, no
  signal). A later \<^verbatim>\<open>update\<close> at a clamped elapsed value of 1 puts the target back where
  the completion had left it, which is at the configured end values when the easing
  function maps 1 to 1.
\<close>

theorem reset_round_trip:
  fixes w :: world and tid :: nat and n :: real
  defines "W \<equiv> \<lambda>time. snd (update tid time w)"
  defines "R \<equiv> \<lambda>time. snd (reset tid ((W time)\<lparr>time_now := n\<rparr>))"
  assumes np: "\<not> paused (tweens w tid)" and ny: "\<not> yoyo (tweens w tid)" and nl: "\<not> loop (tweens w tid)"
    and g: "game (tweens w tid) = Some g" and o: "object (tweens w tid) = Some oid"
    and stt: "startTime (tweens w tid) = Some st" and d: "duration (tweens w tid) = d" "0 < d"
    and self: "tid \<notin> set (chainedTweens (tweens w tid))"
    and ok: "\<not> start_raises w tid"
    and scal: "\<forall>p \<in> set (map fst (valuesStart (tweens w tid))).
                 \<exists>s v. js_get (valuesStart (tweens w tid)) p = Num s \<and>
                       js_get (valuesEnd (tweens w tid)) p = Num v"
    and run: "st + d \<le> time"
    and again: "n + delayTime (tweens w tid) + d \<le> time'"
  shows "fst (reset tid ((W time)\<lparr>time_now := n\<rparr>)) = Return (Some tid) \<and>
         (\<forall>p. js_get (objects (R time) oid) p =
               (if p \<in> set (map fst (valuesStart (tweens w tid)))
                then js_get (valuesStart (tweens w tid)) p else js_get (objects w oid) p)) \<and>
         ((\<forall>p \<in> set (map fst (valuesStart (tweens w tid))).
              map_of (objects w oid) p = Some (js_get (valuesStart (tweens w tid)) p)) \<longrightarrow>
            objects (R time) oid = objects w oid) \<and>
         startTime (tweens (R time) tid) = Some (n + delayTime (tweens w tid)) \<and>
         isRunning (tweens (R time) tid) \<and>
         manager (R time) = manager (W time) \<and> signals (R time) = signals (W time) \<and>
         objects (snd (update tid time' (R time))) oid = objects (W time) oid \<and>
         (easingFunction (tweens w tid) (Num 1) = Num 1 \<longrightarrow>
            (\<forall>p \<in> set (map fst (valuesStart (tweens w tid))).
               js_get (objects (snd (update tid time' (R time))) oid) p =
                 js_get (valuesEnd (tweens w tid)) p))"
proof -
  let ?t = "tweens w tid"
  define cs where "cs = chainedTweens ?t"
  define tv where "tv = easingFunction ?t (Num 1)"
  define t1 where "t1 = ?t\<lparr>tempElapsed := Num 1, tempValue := tv\<rparr>"
  define ks where "ks = map fst (valuesStart ?t)"
  define ob0 where "ob0 = objects w oid"
  define obR where "obR = reset_props ?t ks (update_props t1 ks ob0)"
  define w2 where "w2 = snd (interpolate tid time w)"
  define w3 where "w3 = dispatch (OnUpdate tid (object ?t) tv) w2"
  define W0 where "W0 = W time"
  define Wr where "Wr = W0\<lparr>time_now := n,
      objects := (objects W0)(oid := reset_props (tweens W0 tid) (map fst (valuesStart (tweens W0 tid))) (objects W0 oid))\<rparr>"
  define R0 where "R0 = R time"
  \<comment> \<open>the run to completion\<close>
  have st: "startTime_num ?t = st" using stt by (simp add: startTime_num_def)
  have el: "elapsed time (startTime_num ?t) (duration ?t) = Num 1"
    using d run by (simp add: st elapsed_after)
  have ipn: "fst (interpolate tid tm u) = None" if "object (tweens u tid) = Some oid" for tm u
    by (simp add: interpolate_bound[OF that])
  have st1: "startTime_num ?t \<le> time" using d run by (simp add: st)
  have up: "update tid time w = finish tid w3"
    using update_at_end[OF np st1 el ipn[OF o]] by (simp add: w3_def w2_def tv_def)
  note at = at_end_state[OF el, folded tv_def, folded w2_def, folded w3_def]
  have t3: "tweens w3 tid = t1" by (simp add: at(4) t1_def)
  have fl3: "\<not> yoyo (tweens w3 tid)" "\<not> loop (tweens w3 tid)" "tid \<notin> set (chainedTweens (tweens w3 tid))"
    using ny nl self by (simp_all add: t3 t1_def)
  have o2: "objects w2 = (objects w)(oid := update_props t1 ks ob0)"
    using interpolate_bound[OF o, of time] el by (simp add: w2_def t1_def tv_def ks_def ob0_def)
  have oW: "objects W0 = (objects w)(oid := update_props t1 ks ob0)"
    using finish_objects_no_reset[of w3 tid] fl3(2)
    by (simp add: W0_def W_def up o2[symmetric] w3_def dispatch_def)
  have tW: "tweens W0 tid = t1\<lparr>isRunning := isRunning (tweens W0 tid)\<rparr>"
    using finish_plain_tween[OF fl3] by (simp add: W0_def W_def up t3)
  have fW: "game (tweens W0 tid) = Some g" "object (tweens W0 tid) = Some oid"
    "valuesStart (tweens W0 tid) = valuesStart ?t" "valuesEnd (tweens W0 tid) = valuesEnd ?t"
    "delayTime (tweens W0 tid) = delayTime ?t" "duration (tweens W0 tid) = d"
    "\<not> paused (tweens W0 tid)" "\<not> yoyo (tweens W0 tid)" "\<not> loop (tweens W0 tid)"
    "easingFunction (tweens W0 tid) = easingFunction ?t"
    using g o d np ny nl by (subst tW, simp add: t1_def)+
  \<comment> \<open>reset\<close>
  have oWn: "object (tweens (W0\<lparr>time_now := n\<rparr>) tid) = Some oid" by (simp add: fW)
  have rs: "reset tid (W0\<lparr>time_now := n\<rparr>) = start True tid Wr"
    by (simp add: reset_def write_target_bound[OF oWn] Wr_def)
  have tWr: "tweens Wr = tweens W0" by (simp add: Wr_def)
  have "reset_props (tweens W0 tid) ks (update_props t1 ks ob0) = obR"
    unfolding obR_def by (rule reset_props_cong) (simp add: fW)
  then have oWr: "objects Wr oid = obR"
    by (simp add: Wr_def oW fW ks_def)
  have gWr: "game (tweens Wr tid) = Some g" and obWr: "object (tweens Wr tid) = Some oid"
    by (simp_all add: tWr fW)
  note rb = restart_bound[OF gWr obWr]
  have R0eq: "R0 = snd (start True tid Wr)" by (simp add: R0_def R_def W0_def[symmetric] rs)
  have nb: "\<not> list_ex (bad_key obR) (map fst (valuesEnd ?t))"
  proof -
    have "\<not> bad_key obR p" if "\<not> bad_key ob0 p" for p
      using that scal by (auto simp: obR_def bad_key_after_reset ks_def)
    moreover have "\<not> list_ex (bad_key ob0) (map fst (valuesEnd ?t))"
      using ok g o by (simp add: start_raises_def ob0_def)
    ultimately show ?thesis by (auto simp: list_ex_iff)
  qed
  have "\<not> start_raises Wr tid"
    using nb by (simp add: start_raises_def tWr fW oWr)
  then have out: "fst (reset tid (W0\<lparr>time_now := n\<rparr>)) = Return (Some tid)"
    using gWr obWr by (simp add: rs start_outcome startable_def)
  have oR: "objects R0 oid = obR" by (simp add: R0eq rb(1) oWr)
  have c2: "js_get (objects R0 oid) p = (if p \<in> set ks then js_get (valuesStart ?t) p else js_get ob0 p)" for p
    by (simp add: oR obR_def reset_props_get update_props_get)
  have c2': "objects R0 oid = ob0"
    if "\<forall>p \<in> set ks. map_of ob0 p = Some (js_get (valuesStart ?t) p)"
    unfolding oR obR_def by (rule reset_undoes_update) (rule that)
  have c3: "startTime (tweens R0 tid) = Some (n + delayTime ?t)"
    by (simp add: R0eq rb(4) tWr fW) (simp add: Wr_def)
  have c4: "isRunning (tweens R0 tid)" by (simp add: R0eq rb(5))
  have c5: "manager R0 = manager W0" "signals R0 = signals W0"
    by (simp_all add: R0eq rb(2,3)) (simp_all add: Wr_def)
  \<comment> \<open>the update after the restart\<close>
  note f = start_touches_fields[OF rb(8), folded R0eq, unfolded tWr]
  have fR: "object (tweens R0 tid) = Some oid" "\<not> paused (tweens R0 tid)" "\<not> loop (tweens R0 tid)"
    "duration (tweens R0 tid) = d" "easingFunction (tweens R0 tid) (Num 1) = tv"
    "valuesStart (tweens R0 tid) = valuesStart ?t"
    using f fW by (simp_all add: tv_def R0eq rb(6) tWr)
  have stR: "startTime_num (tweens R0 tid) = n + delayTime ?t"
    by (simp add: startTime_num_def c3)
  have elR: "elapsed time' (startTime_num (tweens R0 tid)) (duration (tweens R0 tid)) = Num 1"
    using d again by (simp add: stR fR elapsed_after)
  have stR1: "startTime_num (tweens R0 tid) \<le> time'" using d again by (simp add: stR)
  define tR1 where "tR1 = (tweens R0 tid)\<lparr>tempElapsed := Num 1, tempValue := tv\<rparr>"
  define R2 where "R2 = snd (interpolate tid time' R0)"
  define R3 where "R3 = dispatch (OnUpdate tid (object (tweens R0 tid)) tv) R2"
  have upR: "update tid time' R0 = finish tid R3"
    using update_at_end[OF fR(2) stR1 elR ipn[OF fR(1)]] by (simp add: R3_def R2_def fR)
  have oR2: "objects R2 oid = update_props tR1 ks obR"
    using interpolate_bound[OF fR(1), of time'] elR
    by (simp add: R2_def tR1_def fR ks_def oR)
  have "\<not> loop (tweens R3 tid)"
    using fR(3) elR by (simp add: R3_def dispatch_def R2_def interpolate_tweens)
  then have "objects (snd (update tid time' R0)) = objects R3"
    using finish_objects_no_reset[of R3 tid] by (simp add: upR)
  then have oF: "objects (snd (update tid time' R0)) oid = update_props tR1 ks obR"
    by (simp add: R3_def dispatch_def oR2)
  have bl: "blend tR1 p = blend t1 p" if "p \<in> set ks" for p
  proof -
    from that scal obtain s v where sv: "js_get (valuesStart ?t) p = Num s" "js_get (valuesEnd ?t) p = Num v"
      by (auto simp: ks_def)
    have "js_get (valuesEnd (tweens Wr tid)) p = Num v" by (simp add: tWr fW sv)
    from rb(7)[OF this] have "js_get (valuesEnd tR1) p = Num v"
      by (simp add: tR1_def R0eq)
    moreover have "js_get (valuesEnd t1) p = Num v" by (simp add: t1_def sv)
    ultimately show ?thesis
      by (simp add: blend_scalar_end) (simp add: tR1_def t1_def fR)
  qed
  have "update_props tR1 ks obR = update_props t1 ks obR"
    using update_props_cong_on[of ks tR1 t1 obR] bl by simp
  also have "\<dots> = update_props t1 ks ob0"
    unfolding obR_def by (rule update_after_reset)
  finally have c6: "objects (snd (update tid time' R0)) oid = objects W0 oid"
    by (simp add: oF oW)
  have c7: "js_get (objects (snd (update tid time' R0)) oid) p = js_get (valuesEnd ?t) p"
    if e1: "easingFunction ?t (Num 1) = Num 1" and p: "p \<in> set ks" for p
  proof -
    from p scal obtain s v where sv: "js_get (valuesStart ?t) p = Num s" "js_get (valuesEnd ?t) p = Num v"
      by (auto simp: ks_def)
    have "blend t1 p = Num (s + (v - s) * 1)"
      by (rule blend_scalar) (simp_all add: t1_def sv tv_def e1)
    then show ?thesis
      using p by (simp add: c6 oW update_props_get sv)
  qed
  from out c2 c2' c3 c4 c5 c6 c7 show ?thesis
    unfolding R0_def W0_def ob0_def ks_def by blast
qed

theorem reset_round_trip_witness:
  "objects started 0 = [(''x'', Num 0), (''y'', Num 5)] \<and>
   objects (snd (update 0 1000 started)) 0 = [(''x'', Num 10), (''y'', Num 5)] \<and>
   fst (reset 0 ((snd (update 0 1000 started))\<lparr>time_now := 1000\<rparr>)) = Return (Some 0) \<and>
   objects (snd (reset 0 ((snd (update 0 1000 started))\<lparr>time_now := 1000\<rparr>))) 0 =
     [(''x'', Num 0), (''y'', Num 5)] \<and>
   startTime (tweens (snd (reset 0 ((snd (update 0 1000 started))\<lparr>time_now := 1000\<rparr>))) 0) = Some 1000 \<and>
   js_get (objects (snd (update 0 2000
       (snd (reset 0 ((snd (update 0 1000 started))\<lparr>time_now := 1000\<rparr>))))) 0) ''x'' = Num 10"
proof -
  have h: "\<not> paused (tweens started 0)" "\<not> yoyo (tweens started 0)" "\<not> loop (tweens started 0)"
    "0 \<notin> set (chainedTweens (tweens started 0))" "\<not> start_raises started 0"
    "\<forall>p \<in> set (map fst (valuesStart (tweens started 0))).
        \<exists>s v. js_get (valuesStart (tweens started 0)) p = Num s \<and>
              js_get (valuesEnd (tweens started 0)) p = Num v"
    "(0::real) + 1000 \<le> 1000" "(1000::real) + delayTime (tweens started 0) + 1000 \<le> 2000"
    by (simp_all add: started_facts start_raises_def js_get_def js_in_def bad_key_def)
  have h': "\<forall>p \<in> set (map fst (valuesStart (tweens started 0))).
        map_of (objects started 0) p = Some (js_get (valuesStart (tweens started 0)) p)"
    "easingFunction (tweens started 0) (Num 1) = Num 1"
    by (simp_all add: started_facts js_get_def Linear_None_def)
  have pos: "(0::real) < 1000" by simp
  note rt = reset_round_trip[OF h(1,2,3) started_facts(13) started_facts(4) started_facts(2,3) pos
      h(4,5,6,7,8)]
  have pre: "objects (snd (update 0 1000 started)) 0 = [(''x'', Num 10), (''y'', Num 5)]"
    by (simp add: started_def demo_def tween_to_def start_def upd_tween_def
        new_tween_def update_def interpolate_def write_target_def finish_def complete_def
        elapsed_def startTime_num_def blend_def Linear_None_def
        js_add_def js_sub_def js_mul_def
        dispatch_def capture_def js_get_def js_in_def bad_key_def start_prop_def Let_def)
  have 1: "fst (reset 0 ((snd (update 0 1000 started))\<lparr>time_now := 1000\<rparr>)) = Return (Some 0)"
    using rt by blast
  have 2: "objects (snd (reset 0 ((snd (update 0 1000 started))\<lparr>time_now := 1000\<rparr>))) 0 = objects started 0"
    using rt h'(1) by blast
  have 3: "startTime (tweens (snd (reset 0 ((snd (update 0 1000 started))\<lparr>time_now := 1000\<rparr>))) 0) =
       Some (1000 + delayTime (tweens started 0))"
    using rt by blast
  have 4: "\<forall>p \<in> set (map fst (valuesStart (tweens started 0))).
       js_get (objects (snd (update 0 2000
         (snd (reset 0 ((snd (update 0 1000 started))\<lparr>time_now := 1000\<rparr>))))) 0) p =
       js_get (valuesEnd (tweens started 0)) p"
    using rt h'(2) by blast
  from 1 2 3 4 show ?thesis
    by (simp add: started_facts pre js_get_def)
qed

text \<open>
  The claim C7 speaks of a started tween run to completion. A yoyo tween is one: \<open>x\<close>
  goes from 0 to 10 and back to 0, and the second leg has swapped the start and end
  values. \<^verbatim>\<open>reset\<close> then writes 10, which is not the value before the tween, and the
  update at a clamped elapsed value of 1 after it ends at 0, which is not the configured
  end value.
\<close>

theorem reset_after_yoyo:
  "js_get (objects started_yoyo 0) ''x'' = Num 0 \<and>
   fst (update 0 1000 (clock_at 1000 started_yoyo)) = Return True \<and>
   fst (update 0 2000 (clock_at 2000 (snd (update 0 1000 (clock_at 1000 started_yoyo))))) = Return False \<and>
   js_get (objects yoyo_done 0) ''x'' = Num 0 \<and>
   valuesStart (tweens yoyo_done 0) = [(''x'', Num 10)] \<and>
   js_get (objects (snd (reset 0 (clock_at 2500 yoyo_done))) 0) ''x'' = Num 10 \<and>
   startTime (tweens (snd (reset 0 (clock_at 2500 yoyo_done))) 0) = Some 2500 \<and>
   js_get (objects (snd (update 0 3500 (clock_at 3500 (snd (reset 0 (clock_at 2500 yoyo_done)))))) 0) ''x'' = Num 0"
  by (simp add: yoyo_done_def clock_at_def started_yoyo_def demo_def tween_to_def start_def upd_tween_def
        new_tween_def update_def interpolate_def write_target_def finish_def reverse_def reset_def
        complete_def keep_alive_def elapsed_def startTime_num_def blend_def Linear_None_def
        js_add_def js_sub_def js_mul_def
        dispatch_def capture_def js_get_def js_in_def bad_key_def start_prop_def Let_def)

section \<open>Keyframes and the internal restart\<close>

text \<open>
  C4 at a looping tween with keyframes. The external start turns the keyframes
  \<^verbatim>\<open>[10]\<close> into \<^verbatim>\<open>[0, 10]\<close>. The update at time 1000 ends the first cycle, resets the
  target and restarts internally, and that \<^verbatim>\<open>start(true)\<close> puts the target's value in
  front once more: the keyframes are \<^verbatim>\<open>[0, 0, 10]\<close>, and \<^verbatim>\<open>[0, 0, 0, 10]\<close> after the
  update at time 2000 that ends the second cycle.
\<close>

theorem restart_prepends_again:
  "valuesEnd (tweens looping_keyframes 0) = [(''x'', Arr [Num 0, Num 10])] \<and>
   fst (update 0 1000 (clock_at 1000 looping_keyframes)) = Return True \<and>
   valuesEnd (tweens (snd (update 0 1000 (clock_at 1000 looping_keyframes))) 0) =
     [(''x'', Arr [Num 0, Num 0, Num 10])] \<and>
   valuesEnd (tweens (snd (start True 0 looping_keyframes)) 0) =
     [(''x'', Arr [Num 0, Num 0, Num 10])] \<and>
   valuesEnd (tweens (snd (update 0 2000 (clock_at 2000
       (snd (update 0 1000 (clock_at 1000 looping_keyframes)))))) 0) =
     [(''x'', Arr [Num 0, Num 0, Num 0, Num 10])]"
  by (simp add: looping_keyframes_def clock_at_def demo_def update_def interpolate_def
        startTime_num_def start_def tween_to_def upd_tween_def new_tween_def dispatch_def
        elapsed_def write_target_def finish_def reset_def keep_alive_def Linear_None_def
        end_keyframe_def capture_def js_get_def js_in_def blend_def bad_key_def start_prop_def
        Let_def)
end
